theory Spec2Isabelle
  imports
    Complex_Main
    "HOL-Library.Char_ord"
    "HOL-Library.List_Lexorder"
    "HOL-Library.Product_Lexorder"
    "HOL-Library.Multiset"
begin

section \<open>Carbon Tracker: the data access layer and the presentation layer\<close>

text \<open>
  The repository has two Python files. \<^verbatim>\<open>backend.py\<close> holds the class \<^verbatim>\<open>Database\<close>, whose
  methods each send one SQL statement to a MySQL server; \<^verbatim>\<open>app.py\<close> is the Streamlit page
  that calls them, caches the reads, sorts and paginates the fetched logs and imports rows
  in bulk.

  The embedding keeps the two layers apart. A method of \<^verbatim>\<open>Database\<close> is a function that
  builds the statement the source builds and hands it to a model of the server; the server
  state is a record of the tables the statements mention. Exceptions are values of a sum
  type. Floating-point columns (quantity, emission, goal) are kept as a type parameter
  \<open>'n\<close>: the source never computes with them.

  A \<^verbatim>\<open>DATE\<close> value is represented by its ISO-8601 text \<^verbatim>\<open>YYYY-MM-DD\<close>, the text that
  \<^verbatim>\<open>str\<close> of a Python date gives and the page passes down; on such texts the lexicographic
  order of strings is the order of the calendar. Loss of connectivity to the server is
  outside the model.
\<close>

subsection \<open>Values, errors and tables\<close>

text \<open>The Python values bound to the \<^verbatim>\<open>%s\<close> placeholders of a statement, and the values of a
  fetched row: \<^verbatim>\<open>None\<close>, an integer, a string, a float.\<close>

datatype 'n sql_val = Null | IntV int | StrV string | NumV 'n

text \<open>The exceptions that reach the code under study. \<^verbatim>\<open>IntegrityError\<close>,
  \<^verbatim>\<open>DataError\<close> and \<^verbatim>\<open>ProgrammingError\<close> are raised by the database connector, the
  others by Python itself.\<close>

datatype error = ValueError | KeyError | TypeError | ZeroDivisionError
  | IntegrityError | DataError | ProgrammingError

record 'n user_row =
  U_UserID :: int
  U_Name :: string
  U_Email :: string
  U_Password :: string
  U_CarbonGoal :: "'n option"
  U_RegistrationDate :: string

record activity_row =
  A_ActivityID :: int
  A_Name :: string
  A_UnitOfMeasure :: string

record location_row =
  L_LocationID :: int
  L_City :: string
  L_Country :: string

record 'n log_row =
  AL_LogID :: int
  AL_UserID :: int
  AL_ActivityID :: int
  AL_LocationID :: "int option"
  AL_Date :: string
  AL_Quantity :: 'n
  AL_CalculatedEmission :: "'n option"

text \<open>The server state: the four tables the statements of \<^verbatim>\<open>backend.py\<close> read or write
  that matter here, in storage order, and the two \<^verbatim>\<open>AUTO_INCREMENT\<close> counters.\<close>

record 'n database =
  Users :: "'n user_row list"
  Activities :: "activity_row list"
  Locations :: "location_row list"
  ActivityLogs :: "'n log_row list"
  next_UserID :: int
  next_LogID :: int

text \<open>A row of the result of \<^verbatim>\<open>list_logs\<close>: the dictionary the cursor returns, with the
  keys of the select list.\<close>

record 'n logs_result_row =
  LogID :: int
  UserName :: string
  ActivityName :: string
  Date :: string
  Quantity :: 'n
  CalculatedEmission :: "'n option"
  City :: "string option"
  Country :: "string option"

subsection \<open>Python truthiness\<close>

text \<open>\<^verbatim>\<open>if user_id:\<close> on an \<^verbatim>\<open>Optional[int]\<close> and \<^verbatim>\<open>if date_from:\<close> on an
  \<^verbatim>\<open>Optional[str]\<close>: \<^verbatim>\<open>None\<close>, \<^verbatim>\<open>0\<close> and the empty string are false.\<close>

fun truthy_int :: "int option \<Rightarrow> bool" where
  "truthy_int None = False"
| "truthy_int (Some i) = (i \<noteq> 0)"

fun truthy_str :: "string option \<Rightarrow> bool" where
  "truthy_str None = False"
| "truthy_str (Some s) = (s \<noteq> [])"

subsection \<open>\<^verbatim>\<open>Database.list_logs\<close>\<close>

text \<open>The query text of \<^verbatim>\<open>list_logs\<close> is a fixed head (the select list, the joins and
  \<^verbatim>\<open>WHERE 1=1\<close>), the conditions appended to it, each with one placeholder, and the fixed
  \<^verbatim>\<open>ORDER BY AL.Date DESC, AL.LogID DESC\<close>. The model keeps the appended conditions as a
  list, in the order they were appended, beside the list of bound arguments.\<close>

datatype condition = AND_UserID_eq | AND_Date_ge | AND_Date_le

text \<open>One condition with the argument bound to its placeholder, on a row of
  \<^verbatim>\<open>ActivityLogs\<close>. A comparison with an argument of another type, or with \<^verbatim>\<open>NULL\<close>, is
  not true; \<^verbatim>\<open>list_logs\<close> binds an integer to the user condition and strings to the date
  conditions only.\<close>

fun holds :: "condition \<times> 'n sql_val \<Rightarrow> 'n log_row \<Rightarrow> bool" where
  "holds (AND_UserID_eq, IntV u) al = (AL_UserID al = u)"
| "holds (AND_Date_ge, StrV d) al = (AL_Date al \<ge> d)"
| "holds (AND_Date_le, StrV d) al = (AL_Date al \<le> d)"
| "holds _ al = False"

text \<open>\<^verbatim>\<open>FROM ActivityLogs AL JOIN Users U ON U.UserID=AL.UserID
  JOIN Activities A ON A.ActivityID=AL.ActivityID
  LEFT JOIN Locations L ON L.LocationID=AL.LocationID\<close>:
  the rows joined to one row of \<^verbatim>\<open>ActivityLogs\<close>. The two inner joins drop a log without
  its user or its activity; the left join keeps a log without location, with \<^verbatim>\<open>NULL\<close>
  city and country.\<close>

definition left_join_Locations :: "'n database \<Rightarrow> 'n log_row \<Rightarrow> location_row option list" where
  "left_join_Locations db al =
     (let ls = filter (\<lambda>l. Some (L_LocationID l) = AL_LocationID al) (Locations db)
      in if ls = [] then [None] else map Some ls)"

definition select_row ::
  "'n log_row \<Rightarrow> 'n user_row \<Rightarrow> activity_row \<Rightarrow> location_row option \<Rightarrow> 'n logs_result_row" where
  "select_row al u a l =
     \<lparr> LogID = AL_LogID al, UserName = U_Name u, ActivityName = A_Name a,
       Date = AL_Date al, Quantity = AL_Quantity al,
       CalculatedEmission = AL_CalculatedEmission al,
       City = map_option L_City l, Country = map_option L_Country l \<rparr>"

definition joined :: "'n database \<Rightarrow> 'n log_row \<Rightarrow> 'n logs_result_row list" where
  "joined db al =
     concat (map (\<lambda>u. concat (map (\<lambda>a. map (select_row al u a) (left_join_Locations db al))
                 (filter (\<lambda>a. A_ActivityID a = AL_ActivityID al) (Activities db))))
       (filter (\<lambda>u. U_UserID u = AL_UserID al) (Users db)))"

text \<open>\<^verbatim>\<open>ORDER BY AL.Date DESC, AL.LogID DESC\<close>: ascending on the pair, reversed.\<close>

definition order_by_Date_desc_LogID_desc ::
  "'n logs_result_row list \<Rightarrow> 'n logs_result_row list" where
  "order_by_Date_desc_LogID_desc rows = rev (sort_key (\<lambda>r. (Date r, LogID r)) rows)"

text \<open>\<^verbatim>\<open>cur.execute(base, tuple(args)); cur.fetchall()\<close> for the query of \<^verbatim>\<open>list_logs\<close>.
  The connector raises \<^verbatim>\<open>ProgrammingError\<close> when the number of arguments is not the
  number of placeholders.\<close>

definition execute_select_logs ::
  "'n database \<Rightarrow> condition list \<Rightarrow> 'n sql_val list \<Rightarrow> error + 'n logs_result_row list" where
  "execute_select_logs db base args =
     (if length base \<noteq> length args then Inl ProgrammingError
      else Inr (order_by_Date_desc_LogID_desc
             (concat (map (joined db)
                (filter (\<lambda>al. list_all (\<lambda>c. holds c al) (zip base args)) (ActivityLogs db))))))"

definition list_logs ::
  "'n database \<Rightarrow> int option \<Rightarrow> string option \<Rightarrow> string option
     \<Rightarrow> error + 'n logs_result_row list" where
  "list_logs db user_id date_from date_to =
     (let base = []; args = [];
          (base, args) = (if truthy_int user_id
                          then (base @ [AND_UserID_eq], args @ [IntV (the user_id)])
                          else (base, args));
          (base, args) = (if truthy_str date_from
                          then (base @ [AND_Date_ge], args @ [StrV (the date_from)])
                          else (base, args));
          (base, args) = (if truthy_str date_to
                          then (base @ [AND_Date_le], args @ [StrV (the date_to)])
                          else (base, args))
      in execute_select_logs db base args)"

subsection \<open>The keys of the schema\<close>

text \<open>Modelled from the spec: the schema of the database (its tables, keys, triggers and
  routines) is not among the source files. The specification gives every entity a unique
  integer identity and makes a log refer to its user and its activity, with the integrity of
  these references enforced by the schema.\<close>

definition integrity :: "'n database \<Rightarrow> bool" where
  "integrity db \<longleftrightarrow>
     distinct (map U_UserID (Users db)) \<and>
     distinct (map A_ActivityID (Activities db)) \<and>
     distinct (map L_LocationID (Locations db)) \<and>
     distinct (map AL_LogID (ActivityLogs db)) \<and>
     (\<forall>al \<in> set (ActivityLogs db).
        AL_UserID al \<in> set (map U_UserID (Users db)) \<and>
        AL_ActivityID al \<in> set (map A_ActivityID (Activities db)))"

text \<open>The rows of \<^verbatim>\<open>ActivityLogs\<close> that the filters of \<^verbatim>\<open>list_logs\<close> select, in the terms
  of its three parameters: a filter counts when Python takes it for true.\<close>

definition selected ::
  "int option \<Rightarrow> string option \<Rightarrow> string option \<Rightarrow> 'n log_row \<Rightarrow> bool" where
  "selected user_id date_from date_to al \<longleftrightarrow>
     (truthy_int user_id \<longrightarrow> AL_UserID al = the user_id) \<and>
     (truthy_str date_from \<longrightarrow> the date_from \<le> AL_Date al) \<and>
     (truthy_str date_to \<longrightarrow> AL_Date al \<le> the date_to)"

subsection \<open>An example database\<close>

text \<open>One user, one activity, and the three logs of the scenario in the specification.\<close>

definition example_db :: "int database" where
  "example_db =
     \<lparr> Users = [\<lparr> U_UserID = 5, U_Name = ''Ann'', U_Email = ''ann@example.org'',
                  U_Password = ''pw'', U_CarbonGoal = Some 300,
                  U_RegistrationDate = ''2023-12-01'' \<rparr>],
       Activities = [\<lparr> A_ActivityID = 1, A_Name = ''Car'', A_UnitOfMeasure = ''km'' \<rparr>],
       Locations = [\<lparr> L_LocationID = 1, L_City = ''Pune'', L_Country = ''India'' \<rparr>],
       ActivityLogs =
         [\<lparr> AL_LogID = 1, AL_UserID = 5, AL_ActivityID = 1, AL_LocationID = None,
             AL_Date = ''2024-01-05'', AL_Quantity = 10, AL_CalculatedEmission = Some 2 \<rparr>,
          \<lparr> AL_LogID = 2, AL_UserID = 5, AL_ActivityID = 1, AL_LocationID = Some 1,
             AL_Date = ''2024-01-10'', AL_Quantity = 20, AL_CalculatedEmission = Some 4 \<rparr>,
          \<lparr> AL_LogID = 3, AL_UserID = 5, AL_ActivityID = 1, AL_LocationID = None,
             AL_Date = ''2024-02-01'', AL_Quantity = 30, AL_CalculatedEmission = Some 6 \<rparr>],
       next_UserID = 6, next_LogID = 4 \<rparr>"

subsection \<open>Pagination: \<^verbatim>\<open>_paginate_df\<close>\<close>

text \<open>\<^verbatim>\<open>xs[start:stop]\<close> as Python and \<^verbatim>\<open>iloc\<close> slice: a negative bound counts from the
  end, and both bounds are cut to the length.\<close>

definition py_slice :: "'a list \<Rightarrow> int \<Rightarrow> int \<Rightarrow> 'a list" where
  "py_slice xs start stop =
     (let n = int (length xs);
          s = (if start < 0 then max 0 (n + start) else min start n);
          e = (if stop < 0 then max 0 (n + stop) else min stop n)
      in take (nat (e - s)) (drop (nat s) xs))"

text \<open>\<^verbatim>\<open>_paginate_df(df, page, page_size)\<close>. The data frame is the list of its rows (the
  frames paginated here always have their columns, so \<^verbatim>\<open>df.empty\<close> is "no rows").
  \<^verbatim>\<open>//\<close> is floor division, as \<open>div\<close> on \<open>int\<close>, and raises on a zero divisor.\<close>

definition paginate_df :: "'a list \<Rightarrow> int \<Rightarrow> int \<Rightarrow> error + ('a list \<times> int)" where
  "paginate_df df page page_size =
     (if df = [] then Inr (df, 0)
      else if page_size = 0 then Inl ZeroDivisionError
      else let total_pages = (int (length df) + page_size - 1) div page_size;
               page = max 1 (min page total_pages);
               start = (page - 1) * page_size;
               stop = start + page_size
           in Inr (py_slice df start stop, total_pages))"

subsection \<open>Writes: \<^verbatim>\<open>add_user\<close>, \<^verbatim>\<open>add_log\<close>, \<^verbatim>\<open>delete_log\<close>\<close>

text \<open>An \<^verbatim>\<open>INSERT INTO table (columns) VALUES (%s, ...)\<close> with the arguments bound to its
  placeholders.\<close>

datatype 'n insert_statement = INSERT_INTO string "string list" "'n sql_val list"

fun insert_table :: "'n insert_statement \<Rightarrow> string" where
  "insert_table (INSERT_INTO table columns vals) = table"

fun insert_columns :: "'n insert_statement \<Rightarrow> string list" where
  "insert_columns (INSERT_INTO table columns vals) = columns"

fun insert_values :: "'n insert_statement \<Rightarrow> 'n sql_val list" where
  "insert_values (INSERT_INTO table columns vals) = vals"

text \<open>The value an insert gives a column: the one bound to it, \<^verbatim>\<open>NULL\<close> for a column the
  statement does not list.\<close>

definition given :: "'n insert_statement \<Rightarrow> string \<Rightarrow> 'n sql_val" where
  "given st c =
     (case map_of (zip (insert_columns st) (insert_values st)) c of
        None \<Rightarrow> Null | Some v \<Rightarrow> v)"

text \<open>Modelled from the spec: the table \<^verbatim>\<open>ActivityLogs\<close> of the schema, which is not among
  the source files, on insert. The specification makes the insert fail when a referenced id
  does not exist, gives a log an identity assigned by the database, and has the emission
  produced by a computation of the database triggered on insert, from the activity (its
  emission factor) and the quantity (the source: "auto-computed by BEFORE INSERT trigger").
  That computation is the parameter \<open>trigger\<close>; it sets the emission whatever the statement
  supplied. The user, the activity, the date and the quantity are required.\<close>

definition insert_ActivityLogs ::
  "(int \<Rightarrow> 'n \<Rightarrow> 'n option) \<Rightarrow> 'n database \<Rightarrow> 'n insert_statement
     \<Rightarrow> error + (int \<times> 'n database)" where
  "insert_ActivityLogs trigger db st =
     (case (given st ''UserID'', given st ''ActivityID'', given st ''Date'',
            given st ''Quantity'') of
        (IntV u, IntV a, StrV d, NumV q) \<Rightarrow>
          (case (case given st ''LocationID'' of
                   Null \<Rightarrow> Inr None | IntV l \<Rightarrow> Inr (Some l) | _ \<Rightarrow> Inl DataError) of
             Inl e \<Rightarrow> Inl e
           | Inr loc \<Rightarrow>
               if u \<notin> set (map U_UserID (Users db)) \<or>
                  a \<notin> set (map A_ActivityID (Activities db)) \<or>
                  (case loc of None \<Rightarrow> False
                   | Some l \<Rightarrow> l \<notin> set (map L_LocationID (Locations db)))
               then Inl IntegrityError
               else
                 let new = \<lparr> AL_LogID = next_LogID db, AL_UserID = u, AL_ActivityID = a,
                             AL_LocationID = loc, AL_Date = d, AL_Quantity = q,
                             AL_CalculatedEmission = trigger a q \<rparr>
                 in Inr (next_LogID db,
                         db \<lparr> ActivityLogs := ActivityLogs db @ [new],
                              next_LogID := next_LogID db + 1 \<rparr>))
      | _ \<Rightarrow> Inl DataError)"

text \<open>Modelled from the spec: the table \<^verbatim>\<open>Users\<close> on insert. The specification makes the
  insert fail on a constraint violation and names the duplicate email; the goal may be
  \<^verbatim>\<open>NULL\<close>.\<close>

definition insert_Users :: "'n database \<Rightarrow> 'n insert_statement \<Rightarrow> error + (int \<times> 'n database)" where
  "insert_Users db st =
     (case (given st ''Name'', given st ''Email'', given st ''Password'',
            given st ''RegistrationDate'') of
        (StrV name, StrV email, StrV password, StrV reg_date) \<Rightarrow>
          (case (case given st ''CarbonGoal'' of
                   Null \<Rightarrow> Inr None | NumV g \<Rightarrow> Inr (Some g) | _ \<Rightarrow> Inl DataError) of
             Inl e \<Rightarrow> Inl e
           | Inr goal \<Rightarrow>
               if email \<in> set (map U_Email (Users db)) then Inl IntegrityError
               else
                 let new = \<lparr> U_UserID = next_UserID db, U_Name = name, U_Email = email,
                             U_Password = password, U_CarbonGoal = goal,
                             U_RegistrationDate = reg_date \<rparr>
                 in Inr (next_UserID db,
                         db \<lparr> Users := Users db @ [new],
                              next_UserID := next_UserID db + 1 \<rparr>))
      | _ \<Rightarrow> Inl DataError)"

text \<open>\<^verbatim>\<open>cur.execute(q, args); cur.lastrowid\<close> for an insert. The connector raises
  \<^verbatim>\<open>ProgrammingError\<close> when the arguments do not match the placeholders, and so does the
  server for a table or a column it does not have.\<close>

definition execute_insert ::
  "(int \<Rightarrow> 'n \<Rightarrow> 'n option) \<Rightarrow> 'n database \<Rightarrow> 'n insert_statement
     \<Rightarrow> error + (int \<times> 'n database)" where
  "execute_insert trigger db st =
     (if length (insert_columns st) \<noteq> length (insert_values st) then Inl ProgrammingError
      else if insert_table st = ''ActivityLogs'' then
        (if set (insert_columns st) \<subseteq>
              set [''LogID'', ''UserID'', ''ActivityID'', ''LocationID'', ''Date'',
                   ''Quantity'', ''CalculatedEmission'']
         then insert_ActivityLogs trigger db st else Inl ProgrammingError)
      else if insert_table st = ''Users'' then
        (if set (insert_columns st) \<subseteq>
              set [''UserID'', ''Name'', ''Email'', ''Password'', ''CarbonGoal'',
                   ''RegistrationDate'']
         then insert_Users db st else Inl ProgrammingError)
      else Inl ProgrammingError)"

text \<open>An \<^verbatim>\<open>Optional[int]\<close> and an \<^verbatim>\<open>Optional[float]\<close> as bound arguments.\<close>

fun optional_int :: "int option \<Rightarrow> 'n sql_val" where
  "optional_int None = Null"
| "optional_int (Some i) = IntV i"

fun optional_float :: "'n option \<Rightarrow> 'n sql_val" where
  "optional_float None = Null"
| "optional_float (Some x) = NumV x"

text \<open>\<^verbatim>\<open>Database.add_user\<close> and \<^verbatim>\<open>Database.add_log\<close>: the statement each builds, and its
  execution. Both return \<^verbatim>\<open>cur.lastrowid\<close>; the model returns the new state of the
  server beside it.\<close>

definition add_user_statement ::
  "string \<Rightarrow> string \<Rightarrow> string \<Rightarrow> 'n option \<Rightarrow> string \<Rightarrow> 'n insert_statement" where
  "add_user_statement name email password carbon_goal reg_date =
     INSERT_INTO ''Users''
       [''Name'', ''Email'', ''Password'', ''CarbonGoal'', ''RegistrationDate'']
       [StrV name, StrV email, StrV password, optional_float carbon_goal, StrV reg_date]"

definition add_user ::
  "(int \<Rightarrow> 'n \<Rightarrow> 'n option) \<Rightarrow> 'n database \<Rightarrow> string \<Rightarrow> string \<Rightarrow> string \<Rightarrow> 'n option \<Rightarrow> string
     \<Rightarrow> error + (int \<times> 'n database)" where
  "add_user trigger db name email password carbon_goal reg_date =
     execute_insert trigger db (add_user_statement name email password carbon_goal reg_date)"

definition add_log_statement ::
  "int \<Rightarrow> int \<Rightarrow> string \<Rightarrow> 'n \<Rightarrow> int option \<Rightarrow> 'n insert_statement" where
  "add_log_statement user_id activity_id date qty location_id =
     INSERT_INTO ''ActivityLogs''
       [''UserID'', ''ActivityID'', ''LocationID'', ''Date'', ''Quantity'']
       [IntV user_id, IntV activity_id, optional_int location_id, StrV date, NumV qty]"

definition add_log ::
  "(int \<Rightarrow> 'n \<Rightarrow> 'n option) \<Rightarrow> 'n database \<Rightarrow> int \<Rightarrow> int \<Rightarrow> string \<Rightarrow> 'n \<Rightarrow> int option
     \<Rightarrow> error + (int \<times> 'n database)" where
  "add_log trigger db user_id activity_id date qty location_id =
     execute_insert trigger db (add_log_statement user_id activity_id date qty location_id)"

text \<open>\<^verbatim>\<open>Database.delete_log\<close>: \<^verbatim>\<open>DELETE FROM ActivityLogs WHERE LogID=%s\<close> with the log id
  bound, and \<^verbatim>\<open>cur.rowcount\<close>, the number of rows the statement removed. No table refers
  to a log, so the statement meets no constraint.\<close>

definition delete_log :: "'n database \<Rightarrow> int \<Rightarrow> error + (int \<times> 'n database)" where
  "delete_log db log_id =
     Inr (int (length (filter (\<lambda>al. AL_LogID al = log_id) (ActivityLogs db))),
          db \<lparr> ActivityLogs := filter (\<lambda>al. AL_LogID al \<noteq> log_id) (ActivityLogs db) \<rparr>)"

text \<open>Modelled from the spec: the \<^verbatim>\<open>AUTO_INCREMENT\<close> counters of the schema stay above the
  identities already given out.\<close>

definition auto_increment_ok :: "'n database \<Rightarrow> bool" where
  "auto_increment_ok db \<longleftrightarrow>
     (\<forall>u \<in> set (Users db). U_UserID u < next_UserID db) \<and>
     (\<forall>al \<in> set (ActivityLogs db). AL_LogID al < next_LogID db)"

subsection \<open>\<^verbatim>\<open>Database.user_met_goal\<close>\<close>

text \<open>\<^verbatim>\<open>bool(v)\<close> on a value fetched from the server.\<close>

fun py_bool :: "'n::zero sql_val \<Rightarrow> bool" where
  "py_bool Null = False"
| "py_bool (IntV i) = (i \<noteq> 0)"
| "py_bool (StrV s) = (s \<noteq> [])"
| "py_bool (NumV x) = (x \<noteq> 0)"

text \<open>\<^verbatim>\<open>cur.execute("SELECT CheckIfUserMetGoal(%s,%s,%s)", ...); row = cur.fetchone()\<close>.
  The function lives in the schema, so what the server answers is the parameter
  \<open>CheckIfUserMetGoal\<close>: an error, no row (\<^verbatim>\<open>None\<close>), or a row. The statement selects one
  expression, so a row is a 1-tuple \<^verbatim>\<open>(v,)\<close>, which Python takes for true whatever \<open>v\<close>
  is; the model keeps \<open>v\<close>.\<close>

definition user_met_goal ::
  "(int \<Rightarrow> int \<Rightarrow> int \<Rightarrow> error + 'n::zero sql_val option) \<Rightarrow> int \<Rightarrow> int \<Rightarrow> int
     \<Rightarrow> error + bool option" where
  "user_met_goal CheckIfUserMetGoal user_id year month =
     (case CheckIfUserMetGoal user_id year month of
        Inl e \<Rightarrow> Inl e
      | Inr row \<Rightarrow> Inr (case row of None \<Rightarrow> None | Some v \<Rightarrow> Some (py_bool v)))"

text \<open>An example of what the server answers to the call of the function: a true scalar for
  user 5, a \<^verbatim>\<open>NULL\<close> scalar for user 6, no row otherwise.\<close>

definition example_CheckIfUserMetGoal :: "int \<Rightarrow> int \<Rightarrow> int \<Rightarrow> error + int sql_val option" where
  "example_CheckIfUserMetGoal user_id year month =
     (if user_id = 5 then Inr (Some (IntV 1))
      else if user_id = 6 then Inr (Some Null)
      else Inr None)"

subsection \<open>Sorting the fetched logs: \<^verbatim>\<open>sort_values\<close> with \<^verbatim>\<open>kind="mergesort"\<close>\<close>

text \<open>The logs tab sorts with
  \<^verbatim>\<open>df_logs.sort_values(sort_col, ascending=ascending, kind="mergesort")\<close>. The routine
  belongs to the pandas library; the model follows what the library does for one sort
  column and the default \<^verbatim>\<open>na_position="last"\<close>: the rows whose key is missing are set
  aside, the others are sorted by a merge sort on the key, for the descending order on the
  reversed sequence with the result reversed again, and the rows with a missing key
  follow in their original order. A column is given by the function that reads its value
  in a row, \<open>None\<close> for a missing value.\<close>

fun merge_by :: "('a \<Rightarrow> 'k::linorder) \<Rightarrow> 'a list \<Rightarrow> 'a list \<Rightarrow> 'a list" where
  "merge_by key [] right = right"
| "merge_by key left [] = left"
| "merge_by key (l # left) (r # right) =
     (if key r < key l then r # merge_by key (l # left) right
      else l # merge_by key left (r # right))"

fun mergesort :: "('a \<Rightarrow> 'k::linorder) \<Rightarrow> 'a list \<Rightarrow> 'a list" where
  "mergesort key xs =
     (if length xs < 2 then xs
      else merge_by key (mergesort key (take (length xs div 2) xs))
                        (mergesort key (drop (length xs div 2) xs)))"

definition sort_values :: "('r \<Rightarrow> 'k::linorder option) \<Rightarrow> bool \<Rightarrow> 'r list \<Rightarrow> 'r list" where
  "sort_values sort_col ascending df =
     (let non_nans = filter (\<lambda>r. sort_col r \<noteq> None) df;
          nans = filter (\<lambda>r. sort_col r = None) df;
          key = (\<lambda>r. the (sort_col r));
          sorted_rows = (if ascending then mergesort key non_nans
                         else rev (mergesort key (rev non_nans)))
      in sorted_rows @ nans)"

subsection \<open>What the page shows\<close>

text \<open>The messages of the page (\<^verbatim>\<open>st.toast\<close>, \<^verbatim>\<open>st.info\<close>, \<^verbatim>\<open>st.warning\<close>,
  \<^verbatim>\<open>st.error\<close>), each with the value its text is formatted from.\<close>

datatype notice =
    Warning_PageReset int
  | Warning_InvalidLogID | Toast_Deleted int | Info_NoRowDeleted | Error_DeleteFailed error
  | Warning_CreateUserFirst | Info_SelectUser | Toast_Inserted int | Error_InsertFailed error
  | Error_ImportError error | Error_MissingColumns | Error_NoUserSelected
  | Warning_RowFailed error | Toast_Imported int
  | Warning_Required | Toast_UserCreated int | Error_CreateUserFailed error

text \<open>The logs tab with logs to show: sort, paginate, and when the requested page is beyond
  the last one, warn and show page 1.\<close>

definition logs_tab_view ::
  "('r \<Rightarrow> 'k::linorder option) \<Rightarrow> bool \<Rightarrow> int \<Rightarrow> int \<Rightarrow> 'r list
     \<Rightarrow> error + (notice list \<times> 'r list \<times> int)" where
  "logs_tab_view sort_col ascending page page_size df_logs =
     (let sdf = sort_values sort_col ascending df_logs in
      case paginate_df sdf page page_size of
        Inl e \<Rightarrow> Inl e
      | Inr (view, total_pages) \<Rightarrow>
          if total_pages \<noteq> 0 \<and> page > total_pages then
            (case paginate_df sdf 1 page_size of
               Inl e \<Rightarrow> Inl e
             | Inr (view, total_pages) \<Rightarrow> Inr ([Warning_PageReset total_pages], view, total_pages))
          else Inr ([], view, total_pages))"

subsection \<open>The read cache\<close>

text \<open>The readers of the page are wrapped by \<^verbatim>\<open>@st.cache_data(ttl=30)\<close>, a decorator of the
  Streamlit library. The model follows what the library documents: an entry per argument
  tuple, holding the value and the time it was fetched; a call finds a fresh entry and
  returns its value, or calls the wrapped function and stores what it returns. The third
  component of the result tells whether the wrapped function was called.
  \<^verbatim>\<open>st.cache_data.clear()\<close> drops every entry.\<close>

type_synonym ('k, 'v) cache = "'k \<rightharpoonup> ('v \<times> nat)"

definition st_cache_data ::
  "nat \<Rightarrow> ('k \<Rightarrow> 'v) \<Rightarrow> ('k, 'v) cache \<Rightarrow> nat \<Rightarrow> 'k \<Rightarrow> 'v \<times> ('k, 'v) cache \<times> bool" where
  "st_cache_data ttl f cache now args =
     (case cache args of
        Some (v, fetched) \<Rightarrow>
          if now < fetched + ttl then (v, cache, False)
          else (f args, cache(args \<mapsto> (f args, now)), True)
      | None \<Rightarrow> (f args, cache(args \<mapsto> (f args, now)), True))"

definition st_cache_data_clear :: "('k, 'v) cache \<Rightarrow> ('k, 'v) cache" where
  "st_cache_data_clear cache = Map.empty"

definition load_logs ::
  "'n database \<Rightarrow> (int option \<times> string option \<times> string option,
                    error + 'n logs_result_row list) cache
     \<Rightarrow> nat \<Rightarrow> int option \<times> string option \<times> string option
     \<Rightarrow> (error + 'n logs_result_row list)
        \<times> (int option \<times> string option \<times> string option, error + 'n logs_result_row list) cache
        \<times> bool" where
  "load_logs db =
     st_cache_data 30 (\<lambda>(user_id, dfrom, dto). list_logs db user_id dfrom dto)"

subsection \<open>The write handlers of the page\<close>

text \<open>What a handler works on: the server, the read cache, and the messages shown so far.\<close>

record ('n, 'k, 'v) session =
  server :: "'n database"
  cache_data :: "('k, 'v) cache"
  shown :: "notice list"

text \<open>The button "Delete" of the logs tab, lines 302 to 315.\<close>

definition delete_handler :: "int \<Rightarrow> ('n, 'k, 'v) session \<Rightarrow> ('n, 'k, 'v) session" where
  "delete_handler del_id s =
     (if del_id \<le> 0 then s \<lparr> shown := shown s @ [Warning_InvalidLogID] \<rparr>
      else
        case delete_log (server s) del_id of
          Inl e \<Rightarrow> s \<lparr> shown := shown s @ [Error_DeleteFailed e] \<rparr>
        | Inr (deleted, db') \<Rightarrow>
            if deleted \<noteq> 0
            then s \<lparr> server := db', shown := shown s @ [Toast_Deleted del_id],
                     cache_data := st_cache_data_clear (cache_data s) \<rparr>
            else s \<lparr> server := db', shown := shown s @ [Info_NoRowDeleted] \<rparr>)"

text \<open>The button "Add Log", lines 320 to 366. \<open>users\<close> is the list the page loaded;
  the two maps are the dictionaries from the labels of the select boxes to the ids, and a
  label that is not a key raises \<^verbatim>\<open>KeyError\<close>.\<close>

definition add_log_handler ::
  "(int \<Rightarrow> 'n \<Rightarrow> 'n option) \<Rightarrow> 'n user_row list \<Rightarrow> int option
     \<Rightarrow> (string \<rightharpoonup> int) \<Rightarrow> string \<Rightarrow> string \<Rightarrow> 'n \<Rightarrow> (string \<rightharpoonup> int option) \<Rightarrow> string
     \<Rightarrow> ('n, 'k, 'v) session \<Rightarrow> ('n, 'k, 'v) session" where
  "add_log_handler trigger users picked_user_id act_id_map act_choice log_date qty
       loc_id_map loc_choice s =
     (if users = [] then s \<lparr> shown := shown s @ [Warning_CreateUserFirst] \<rparr>
      else
        case picked_user_id of
          None \<Rightarrow> s \<lparr> shown := shown s @ [Info_SelectUser] \<rparr>
        | Some ins_user_id \<Rightarrow>
            (case (case act_id_map act_choice of
                     None \<Rightarrow> Inl KeyError
                   | Some activity_id \<Rightarrow>
                       (case loc_id_map loc_choice of
                          None \<Rightarrow> Inl KeyError
                        | Some location_id \<Rightarrow>
                            add_log trigger (server s) ins_user_id activity_id log_date qty
                              location_id)) of
               Inl e \<Rightarrow> s \<lparr> shown := shown s @ [Error_InsertFailed e] \<rparr>
             | Inr (new_id, db') \<Rightarrow>
                 s \<lparr> server := db', shown := shown s @ [Toast_Inserted new_id],
                     cache_data := st_cache_data_clear (cache_data s) \<rparr>))"

text \<open>The button "Add User", lines 429 to 438.\<close>

definition add_user_handler ::
  "(int \<Rightarrow> 'n \<Rightarrow> 'n option) \<Rightarrow> string \<Rightarrow> string \<Rightarrow> string \<Rightarrow> 'n \<Rightarrow> string
     \<Rightarrow> ('n, 'k, 'v) session \<Rightarrow> ('n, 'k, 'v) session" where
  "add_user_handler trigger u_name u_email u_pass u_goal u_reg s =
     (if u_name = [] \<or> u_email = [] \<or> u_pass = []
      then s \<lparr> shown := shown s @ [Warning_Required] \<rparr>
      else
        case add_user trigger (server s) u_name u_email u_pass (Some u_goal) u_reg of
          Inl e \<Rightarrow> s \<lparr> shown := shown s @ [Error_CreateUserFailed e] \<rparr>
        | Inr (uid, db') \<Rightarrow>
            s \<lparr> server := db', shown := shown s @ [Toast_UserCreated uid],
                cache_data := st_cache_data_clear (cache_data s) \<rparr>)"

subsection \<open>Bulk import\<close>

text \<open>The frame that \<^verbatim>\<open>pd.read_csv\<close> returns: its column names and its rows, a row mapping
  a column name to a cell. The type \<open>'c\<close> of the cells and the conversions Python and
  pandas apply to them (\<^verbatim>\<open>int\<close>, \<^verbatim>\<open>str\<close>, \<^verbatim>\<open>float\<close>, \<^verbatim>\<open>pd.notna\<close>) are parameters: they
  belong to the language and the library. \<^verbatim>\<open>int\<close> and \<^verbatim>\<open>float\<close> may raise.\<close>

record 'c data_frame =
  df_columns :: "string list"
  df_rows :: "(string \<rightharpoonup> 'c) list"

record ('c, 'n) builtins =
  py_int :: "'c \<Rightarrow> error + int"
  py_str :: "'c \<Rightarrow> string"
  py_float :: "'c \<Rightarrow> error + 'n"
  pd_notna :: "'c \<Rightarrow> bool"

text \<open>\<^verbatim>\<open>r["..."]\<close> on a row, and the sequencing of steps that may raise: the first exception
  ends the evaluation.\<close>

definition getitem :: "(string \<rightharpoonup> 'c) \<Rightarrow> string \<Rightarrow> error + 'c" where
  "getitem r k = (case r k of None \<Rightarrow> Inl KeyError | Some c \<Rightarrow> Inr c)"

definition and_then :: "error + 'a \<Rightarrow> ('a \<Rightarrow> error + 'b) \<Rightarrow> error + 'b" where
  "and_then x f = (case x of Inl e \<Rightarrow> Inl e | Inr v \<Rightarrow> f v)"

text \<open>The body of the \<^verbatim>\<open>try\<close> in the loop, lines 395 to 401: the arguments of
  \<^verbatim>\<open>add_log\<close> are evaluated from left to right, then the call is made.\<close>

definition import_row ::
  "('c, 'n) builtins \<Rightarrow> (int \<Rightarrow> 'n \<Rightarrow> 'n option) \<Rightarrow> int \<Rightarrow> string list
     \<Rightarrow> 'n database \<Rightarrow> (string \<rightharpoonup> 'c) \<Rightarrow> error + (int \<times> 'n database)" where
  "import_row py trigger picked_user_id cols db r =
     and_then (and_then (getitem r ''ActivityID'') (py_int py)) (\<lambda>activity_id.
     and_then (getitem r ''Date'') (\<lambda>d.
     and_then (and_then (getitem r ''Quantity'') (py_float py)) (\<lambda>qty.
     and_then
       (if ''LocationID'' \<in> set cols
        then and_then (getitem r ''LocationID'') (\<lambda>l.
               if pd_notna py l
               then and_then (and_then (getitem r ''LocationID'') (py_int py))
                      (\<lambda>i. Inr (Some i))
               else Inr None)
        else Inr None) (\<lambda>location_id.
     add_log trigger db picked_user_id activity_id (py_str py d) qty location_id))))"

text \<open>The loop, lines 392 to 404: the state is the server, the counter \<^verbatim>\<open>inserted\<close> and the
  warnings shown. An exception in the body is caught, shown as a warning, and the loop goes
  on with the next row.\<close>

fun import_rows ::
  "('c, 'n) builtins \<Rightarrow> (int \<Rightarrow> 'n \<Rightarrow> 'n option) \<Rightarrow> int \<Rightarrow> string list
     \<Rightarrow> 'n database \<times> int \<times> notice list \<Rightarrow> (string \<rightharpoonup> 'c) list
     \<Rightarrow> 'n database \<times> int \<times> notice list" where
  "import_rows py trigger picked_user_id cols (db, inserted, warnings) [] =
     (db, inserted, warnings)"
| "import_rows py trigger picked_user_id cols (db, inserted, warnings) (r # rs) =
     (case import_row py trigger picked_user_id cols db r of
        Inr (new_id, db') \<Rightarrow>
          import_rows py trigger picked_user_id cols (db', inserted + 1, warnings) rs
      | Inl ie \<Rightarrow>
          import_rows py trigger picked_user_id cols
            (db, inserted, warnings @ [Warning_RowFailed ie]) rs)"

text \<open>The uploader with a file, lines 381 to 408. \<open>file\<close> is what \<^verbatim>\<open>pd.read_csv\<close> gave:
  a frame, or the exception it raised.\<close>

definition import_handler ::
  "('c, 'n) builtins \<Rightarrow> (int \<Rightarrow> 'n \<Rightarrow> 'n option) \<Rightarrow> int option \<Rightarrow> error + 'c data_frame
     \<Rightarrow> ('n, 'k, 'v) session \<Rightarrow> ('n, 'k, 'v) session" where
  "import_handler py trigger picked_user_id file s =
     (case file of
        Inl e \<Rightarrow> s \<lparr> shown := shown s @ [Error_ImportError e] \<rparr>
      | Inr df_imp \<Rightarrow>
          if \<not> set [''ActivityID'', ''Date'', ''Quantity''] \<subseteq> set (df_columns df_imp)
          then s \<lparr> shown := shown s @ [Error_MissingColumns] \<rparr>
          else
            case picked_user_id of
              None \<Rightarrow> s \<lparr> shown := shown s @ [Error_NoUserSelected] \<rparr>
            | Some user_id \<Rightarrow>
                (case import_rows py trigger user_id (df_columns df_imp) (server s, 0, [])
                        (df_rows df_imp) of
                   (db', inserted, warnings) \<Rightarrow>
                     s \<lparr> server := db',
                         shown := shown s @ warnings @ [Toast_Imported inserted],
                         cache_data := st_cache_data_clear (cache_data s) \<rparr>))"

subsection \<open>Examples for the handlers\<close>

text \<open>A file of three rows whose second row has a quantity that is no number, with cells as
  the texts of the file; conversions that read the numerals the file uses and raise
  \<^verbatim>\<open>ValueError\<close> on any other text; and a trigger that doubles the quantity.\<close>

definition example_builtins :: "(string, int) builtins" where
  "example_builtins =
     \<lparr> py_int = (\<lambda>c. if c = ''1'' then Inr 1 else Inl ValueError),
       py_str = (\<lambda>c. c),
       py_float = (\<lambda>c. if c = ''10'' then Inr 10 else if c = ''30'' then Inr 30
                       else Inl ValueError),
       pd_notna = (\<lambda>c. c \<noteq> []) \<rparr>"

definition example_frame :: "string data_frame" where
  "example_frame =
     \<lparr> df_columns = [''ActivityID'', ''Date'', ''Quantity''],
       df_rows =
         [map_of [(''ActivityID'', ''1''), (''Date'', ''2024-03-01''), (''Quantity'', ''10'')],
          map_of [(''ActivityID'', ''1''), (''Date'', ''2024-03-02''), (''Quantity'', ''abc'')],
          map_of [(''ActivityID'', ''1''), (''Date'', ''2024-03-03''), (''Quantity'', ''30'')]] \<rparr>"

definition example_trigger :: "int \<Rightarrow> int \<Rightarrow> int option" where
  "example_trigger activity_id qty = Some (2 * qty)"

text \<open>A session whose cache holds the logs read without filter at time 0.\<close>

definition example_session ::
  "(int, int option \<times> string option \<times> string option, error + int logs_result_row list) session" where
  "example_session =
     \<lparr> server = example_db,
       cache_data = [(None, None, None) \<mapsto> (list_logs example_db None None None, 0)],
       shown = [] \<rparr>"

section \<open>Properties\<close>

subsection \<open>Helper lemmas: keys, joins and the order of the result\<close>

lemma filter_key_single:
  "distinct (map f xs) \<Longrightarrow> k \<in> set (map f xs)
     \<Longrightarrow> \<exists>x. filter (\<lambda>x. f x = k) xs = [x] \<and> x \<in> set xs \<and> f x = k"
proof (induction xs)
  case Nil
  then show ?case by simp
next
  case (Cons y ys)
  show ?case
  proof (cases "f y = k")
    case True
    with Cons.prems have "k \<notin> f ` set ys" by auto
    then have "\<forall>z \<in> set ys. f z \<noteq> k" by blast
    then have "filter (\<lambda>x. f x = k) ys = []" by (simp add: filter_empty_conv)
    with True show ?thesis by simp
  next
    case False
    with Cons show ?thesis by auto
  qed
qed

lemma filter_key_at_most_one:
  "distinct (map f xs)
     \<Longrightarrow> filter (\<lambda>x. Some (f x) = k) xs = [] \<or> (\<exists>x. filter (\<lambda>x. Some (f x) = k) xs = [x])"
proof (induction xs)
  case Nil
  then show ?case by simp
next
  case (Cons y ys)
  show ?case
  proof (cases "Some (f y) = k")
    case True
    with Cons.prems have "f y \<notin> f ` set ys" by auto
    with True have "\<forall>z \<in> set ys. Some (f z) \<noteq> k" by blast
    then have "filter (\<lambda>x. Some (f x) = k) ys = []" by (simp add: filter_empty_conv)
    with True show ?thesis by simp
  next
    case False
    with Cons show ?thesis by auto
  qed
qed

text \<open>With the keys of the schema in force, the joins give each log exactly one row.\<close>

lemma joined_single:
  assumes "integrity db" and "al \<in> set (ActivityLogs db)"
  shows "\<exists>u a l. joined db al = [select_row al u a l] \<and>
           u \<in> set (Users db) \<and> U_UserID u = AL_UserID al \<and>
           a \<in> set (Activities db) \<and> A_ActivityID a = AL_ActivityID al"
proof -
  from assms obtain u where u: "filter (\<lambda>u. U_UserID u = AL_UserID al) (Users db) = [u]"
      "u \<in> set (Users db)" "U_UserID u = AL_UserID al"
    using filter_key_single [of U_UserID "Users db" "AL_UserID al"]
    unfolding integrity_def by blast
  from assms obtain a
    where a: "filter (\<lambda>a. A_ActivityID a = AL_ActivityID al) (Activities db) = [a]"
      "a \<in> set (Activities db)" "A_ActivityID a = AL_ActivityID al"
    using filter_key_single [of A_ActivityID "Activities db" "AL_ActivityID al"]
    unfolding integrity_def by blast
  from assms have "distinct (map L_LocationID (Locations db))"
    unfolding integrity_def by blast
  from filter_key_at_most_one [OF this, of "AL_LocationID al"]
  obtain l where "left_join_Locations db al = [l]"
    unfolding left_join_Locations_def Let_def by auto
  with u a show ?thesis
    unfolding joined_def by auto
qed

lemma LogID_joined:
  assumes "integrity db" and "set als \<subseteq> set (ActivityLogs db)"
  shows "map LogID (concat (map (joined db) als)) = map AL_LogID als"
  using assms(2)
proof (induction als)
  case Nil
  then show ?case by simp
next
  case (Cons al als)
  then have "al \<in> set (ActivityLogs db)" by simp
  from joined_single [OF assms(1) this] obtain u a l
    where "joined db al = [select_row al u a l]" by blast
  with Cons show ?case by (simp add: select_row_def)
qed

text \<open>The statement that \<^verbatim>\<open>list_logs\<close> assembles never has a placeholder without its
  argument, and its conditions are those of \<^const>\<open>selected\<close>.\<close>

lemma list_logs_eq:
  "list_logs db user_id date_from date_to =
     Inr (order_by_Date_desc_LogID_desc
       (concat (map (joined db)
          (filter (selected user_id date_from date_to) (ActivityLogs db)))))"
  by (cases user_id; cases date_from; cases date_to)
     (simp_all add: list_logs_def execute_select_logs_def selected_def [abs_def])

lemma mset_order_by: "mset (order_by_Date_desc_LogID_desc rows) = mset rows"
  by (simp add: order_by_Date_desc_LogID_desc_def)

lemma sorted_order_by:
  "sorted_wrt (\<lambda>r s. Date s < Date r \<or> (Date s = Date r \<and> LogID s \<le> LogID r))
     (order_by_Date_desc_LogID_desc rows)"
proof -
  let ?k = "\<lambda>r. (Date r, LogID r)"
  have "sorted (map ?k (sort_key ?k rows))" by simp
  then have "sorted_wrt (\<lambda>r s. ?k r \<le> ?k s) (sort_key ?k rows)"
    by (simp add: sorted_map)
  then have "sorted_wrt (\<lambda>r s. ?k s \<le> ?k r) (rev (sort_key ?k rows))"
    by (simp add: sorted_wrt_rev)
  then show ?thesis
    unfolding order_by_Date_desc_LogID_desc_def
    by (rule sorted_wrt_mono_rel [rotated]) (auto simp: less_eq_prod_def)
qed

lemma example_db_integrity: "integrity example_db"
  by (simp add: integrity_def example_db_def)

subsection \<open>Claims about \<^verbatim>\<open>list_logs\<close>\<close>

text \<open>
  C1, as the code has it. A filter constrains the result only when it is truthy: a user id
  other than 0, a date text other than the empty one. On a database that satisfies the keys
  of its schema, \<^verbatim>\<open>list_logs\<close> returns without error; the log ids of the returned rows are
  exactly those of the rows of \<^verbatim>\<open>ActivityLogs\<close> that satisfy every truthy filter (the user
  equal to the given one, the date from \<^verbatim>\<open>date_from\<close> on and up to \<^verbatim>\<open>date_to\<close>, both
  inclusive), each once; the rows come by date descending, then by log id descending; and
  every returned row carries the date, quantity and emission of a selected log.
\<close>

theorem list_logs_truthy_filters_ordered:
  assumes "integrity db"
  shows "\<exists>rows. list_logs db user_id date_from date_to = Inr rows \<and>
           mset (map LogID rows) =
             mset (map AL_LogID (filter (selected user_id date_from date_to) (ActivityLogs db))) \<and>
           sorted_wrt (\<lambda>r s. Date s < Date r \<or> (Date s = Date r \<and> LogID s \<le> LogID r)) rows \<and>
           (\<forall>r \<in> set rows. \<exists>al \<in> set (ActivityLogs db).
              selected user_id date_from date_to al \<and>
              LogID r = AL_LogID al \<and> Date r = AL_Date al \<and> Quantity r = AL_Quantity al \<and>
              CalculatedEmission r = AL_CalculatedEmission al)"
proof -
  let ?als = "filter (selected user_id date_from date_to) (ActivityLogs db)"
  let ?js = "concat (map (joined db) ?als)"
  let ?rows = "order_by_Date_desc_LogID_desc ?js"
  have sub: "set ?als \<subseteq> set (ActivityLogs db)" by auto
  have "mset (map LogID ?rows) = mset (map LogID ?js)"
    by (simp add: mset_order_by)
  then have ids: "mset (map LogID ?rows) = mset (map AL_LogID ?als)"
    by (simp only: LogID_joined [OF assms sub])
  have carried: "\<exists>al \<in> set (ActivityLogs db).
              selected user_id date_from date_to al \<and>
              LogID r = AL_LogID al \<and> Date r = AL_Date al \<and> Quantity r = AL_Quantity al \<and>
              CalculatedEmission r = AL_CalculatedEmission al" if "r \<in> set ?rows" for r
  proof -
    from that have "r \<in> set ?js"
      using mset_order_by [of ?js] by (metis set_mset_mset)
    then obtain al where al: "al \<in> set ?als" and r: "r \<in> set (joined db al)"
      by auto
    from al have mem: "al \<in> set (ActivityLogs db)" and sel: "selected user_id date_from date_to al"
      by auto
    from joined_single [OF assms mem] r obtain u a l where "r = select_row al u a l"
      by auto
    with mem sel show ?thesis
      by (auto simp: select_row_def)
  qed
  show ?thesis
    using ids sorted_order_by [of ?js] carried
    by (simp only: list_logs_eq) blast
qed

theorem list_logs_truthy_filters_ordered_witness:
  "integrity example_db \<and>
   (\<exists>rows. list_logs example_db (Some 5) (Some ''2024-01-01'') (Some ''2024-01-31'') = Inr rows \<and>
      mset (map LogID rows) =
        mset (map AL_LogID (filter (selected (Some 5) (Some ''2024-01-01'') (Some ''2024-01-31''))
               (ActivityLogs example_db))) \<and>
      sorted_wrt (\<lambda>r s. Date s < Date r \<or> (Date s = Date r \<and> LogID s \<le> LogID r)) rows \<and>
      (\<forall>r \<in> set rows. \<exists>al \<in> set (ActivityLogs example_db).
         selected (Some 5) (Some ''2024-01-01'') (Some ''2024-01-31'') al \<and>
         LogID r = AL_LogID al \<and> Date r = AL_Date al \<and> Quantity r = AL_Quantity al \<and>
         CalculatedEmission r = AL_CalculatedEmission al))"
  using list_logs_truthy_filters_ordered [OF example_db_integrity] example_db_integrity
  by blast

text \<open>
  C1 as the specification words it fails where a filter is supplied but not truthy. In the
  example database every log belongs to user 5; asked for the logs of user 0,
  \<^verbatim>\<open>list_logs\<close> returns all three of them, although none has user 0.
\<close>

theorem list_logs_user_zero_counterexample:
  "map_sum id (map LogID) (list_logs example_db (Some 0) None None) = Inr [3, 2, 1] \<and>
   0 \<notin> set (map AL_UserID (ActivityLogs example_db))"
  by (simp add: example_db_def list_logs_def execute_select_logs_def joined_def
      left_join_Locations_def select_row_def order_by_Date_desc_LogID_desc_def)

text \<open>The scenario of the specification: user 5, the range 2024-01-01 to 2024-01-31, logs on
  2024-01-05, 2024-01-10 and 2024-02-01. The first two are returned, the later one first.\<close>

lemma list_logs_scenario:
  "map_sum id (map (\<lambda>r. (LogID r, Date r)))
     (list_logs example_db (Some 5) (Some ''2024-01-01'') (Some ''2024-01-31''))
   = Inr [(2, ''2024-01-10''), (1, ''2024-01-05'')]"
  by (simp add: example_db_def list_logs_def execute_select_logs_def joined_def
      left_join_Locations_def select_row_def order_by_Date_desc_LogID_desc_def)

text \<open>
  C9: a user filter equal to 0 is no filter. \<^verbatim>\<open>list_logs\<close> with user id 0 returns what it
  returns with no user id, whatever the database and the date filters.
\<close>

theorem list_logs_user_zero_is_no_filter:
  "list_logs db (Some 0) date_from date_to = list_logs db None date_from date_to"
  by (simp add: list_logs_def)

subsection \<open>Pagination\<close>

lemma total_pages_bounds:
  fixes R P :: int
  assumes "0 < P" "0 < R"
  shows "P * ((R + P - 1) div P - 1) < R" and "R \<le> P * ((R + P - 1) div P)"
    and "1 \<le> (R + P - 1) div P"
proof -
  define t where "t = (R + P - 1) div P"
  define m where "m = (R + P - 1) mod P"
  have eq: "R + P - 1 = P * t + m" by (simp add: t_def m_def)
  have m: "0 \<le> m" "m < P" using assms by (simp_all add: m_def)
  have "P * (t - 1) = P * t - P" by (simp add: algebra_simps)
  with eq m show "P * ((R + P - 1) div P - 1) < R" unfolding t_def [symmetric] by linarith
  from eq m show "R \<le> P * ((R + P - 1) div P)" unfolding t_def [symmetric] by linarith
  from assms have "0 < (R + P - 1) div P"
    by (simp add: pos_imp_zdiv_pos_iff)
  then show "1 \<le> (R + P - 1) div P" by linarith
qed

lemma total_pages_ceiling:
  fixes R P :: int
  assumes "0 < P" "0 \<le> R"
  shows "(R + P - 1) div P = \<lceil>real_of_int R / real_of_int P\<rceil>"
proof (cases "R = 0")
  case True
  with assms show ?thesis by (simp add: div_pos_pos_trivial)
next
  case False
  with assms have R: "0 < R" by simp
  define t where "t = (R + P - 1) div P"
  from total_pages_bounds [OF assms(1) R]
  have lo: "P * (t - 1) < R" and hi: "R \<le> P * t" by (simp_all add: t_def)
  from lo have "real_of_int (P * (t - 1)) < real_of_int R" by (simp only: of_int_less_iff)
  then have "real_of_int t - 1 < real_of_int R / real_of_int P"
    using assms(1) by (simp add: pos_less_divide_eq mult.commute)
  moreover
  from hi have "real_of_int R \<le> real_of_int (P * t)" by (simp only: of_int_le_iff)
  then have "real_of_int R / real_of_int P \<le> real_of_int t"
    using assms(1) by (simp add: pos_divide_le_eq mult.commute)
  ultimately have "\<lceil>real_of_int R / real_of_int P\<rceil> = t"
    by (rule ceiling_unique)
  then show ?thesis by (simp add: t_def)
qed

text \<open>What \<^verbatim>\<open>_paginate_df\<close> computes for a positive page size.\<close>

lemma paginate_df_spec:
  fixes df :: "'a list" and page P :: int
  assumes "0 < P"
  shows "\<exists>view total_pages.
           paginate_df df page P = Inr (view, total_pages) \<and>
           total_pages = \<lceil>real (length df) / real_of_int P\<rceil> \<and>
           (df = [] \<longrightarrow> total_pages = 0 \<and> view = []) \<and>
           (df \<noteq> [] \<longrightarrow>
              (let p = max 1 (min page total_pages) in
                 1 \<le> p \<and> p \<le> total_pages \<and>
                 view = take (nat P) (drop (nat ((p - 1) * P)) df) \<and>
                 (p < total_pages \<longrightarrow> int (length view) = P) \<and>
                 (p = total_pages \<longrightarrow>
                    int (length view) = int (length df) - P * (total_pages - 1) \<and>
                    1 \<le> int (length view) \<and> int (length view) \<le> P)))"
proof (cases "df = []")
  case True
  then show ?thesis by (simp add: paginate_df_def)
next
  case False
  define R where "R = int (length df)"
  define t where "t = (R + P - 1) div P"
  define p where "p = max 1 (min page t)"
  from False have R: "0 < R" by (simp add: R_def)
  from total_pages_bounds [OF assms R]
  have lo: "P * (t - 1) < R" and hi: "R \<le> P * t" and t1: "1 \<le> t" by (simp_all add: t_def)
  have ceil: "t = \<lceil>real (length df) / real_of_int P\<rceil>"
    using total_pages_ceiling [OF assms, of R] R by (simp add: t_def R_def)
  have p: "1 \<le> p" "p \<le> t" using t1 by (simp_all add: p_def)
  have start: "0 \<le> (p - 1) * P" using p assms by simp
  have "(p - 1) * P \<le> (t - 1) * P" using p assms by (simp add: mult_right_mono)
  with lo have startR: "(p - 1) * P < R" by (simp add: mult.commute)
  have slice: "py_slice df ((p - 1) * P) ((p - 1) * P + P) = take (nat P) (drop (nat ((p - 1) * P)) df)"
  proof (cases "(p - 1) * P + P \<le> R")
    case True
    with start startR assms show ?thesis
      by (simp add: py_slice_def Let_def R_def min_def)
  next
    case F: False
    with start startR assms have "py_slice df ((p - 1) * P) ((p - 1) * P + P)
        = take (nat (R - (p - 1) * P)) (drop (nat ((p - 1) * P)) df)"
      by (simp add: py_slice_def Let_def R_def min_def)
    also have "\<dots> = drop (nat ((p - 1) * P)) df"
      using start by (simp add: R_def)
    also have "\<dots> = take (nat P) (drop (nat ((p - 1) * P)) df)"
      using F start by (simp add: R_def)
    finally show ?thesis .
  qed
  have res: "paginate_df df page P = Inr (take (nat P) (drop (nat ((p - 1) * P)) df), t)"
    using False assms slice by (simp add: paginate_df_def Let_def t_def p_def R_def)
  have len: "int (length (take (nat P) (drop (nat ((p - 1) * P)) df))) = min P (R - (p - 1) * P)"
  proof -
    define x where "x = (p - 1) * P"
    have "0 \<le> x" "x < int (length df)" using start startR by (simp_all add: x_def R_def)
    with assms have "int (min (length df - nat x) (nat P)) = min P (int (length df) - x)"
      by linarith
    then show ?thesis by (simp add: x_def R_def min.commute)
  qed
  have mid: "int (length (take (nat P) (drop (nat ((p - 1) * P)) df))) = P" if "p < t"
  proof -
    from that have "p * P \<le> (t - 1) * P" using assms by (simp add: mult_right_mono)
    with lo have "p * P < R" by (simp add: mult.commute)
    then have "P \<le> R - (p - 1) * P" by (simp add: algebra_simps)
    with len show ?thesis by simp
  qed
  have last: "int (length (take (nat P) (drop (nat ((p - 1) * P)) df)))
                = int (length df) - P * (t - 1)"
     "1 \<le> int (length (take (nat P) (drop (nat ((p - 1) * P)) df)))"
     "int (length (take (nat P) (drop (nat ((p - 1) * P)) df))) \<le> P" if "p = t"
  proof -
    from hi have le: "R - P * (t - 1) \<le> P" by (simp add: algebra_simps)
    with len that
    have eq: "int (length (take (nat P) (drop (nat ((p - 1) * P)) df))) = R - P * (t - 1)"
      by (simp add: mult.commute)
    then show "int (length (take (nat P) (drop (nat ((p - 1) * P)) df)))
                = int (length df) - P * (t - 1)"
      by (simp only: R_def)
    from lo eq show "1 \<le> int (length (take (nat P) (drop (nat ((p - 1) * P)) df)))"
      by linarith
    from le eq show "int (length (take (nat P) (drop (nat ((p - 1) * P)) df))) \<le> P"
      by linarith
  qed
  show ?thesis
  proof (intro exI conjI)
    show "paginate_df df page P = Inr (take (nat P) (drop (nat ((p - 1) * P)) df), t)"
      by (rule res)
    show "t = \<lceil>real (length df) / real_of_int P\<rceil>"
      by (rule ceil)
    show "df = [] \<longrightarrow> t = 0 \<and> take (nat P) (drop (nat ((p - 1) * P)) df) = []"
      using False by blast
    show "df \<noteq> [] \<longrightarrow>
            (let p' = max 1 (min page t) in
               1 \<le> p' \<and> p' \<le> t \<and>
               take (nat P) (drop (nat ((p - 1) * P)) df)
                 = take (nat P) (drop (nat ((p' - 1) * P)) df) \<and>
               (p' < t \<longrightarrow> int (length (take (nat P) (drop (nat ((p - 1) * P)) df))) = P) \<and>
               (p' = t \<longrightarrow>
                  int (length (take (nat P) (drop (nat ((p - 1) * P)) df)))
                    = int (length df) - P * (t - 1) \<and>
                  1 \<le> int (length (take (nat P) (drop (nat ((p - 1) * P)) df))) \<and>
                  int (length (take (nat P) (drop (nat ((p - 1) * P)) df))) \<le> P))"
      unfolding Let_def p_def [symmetric]
      using p mid last by blast
  qed
qed

text \<open>Five rows in pages of two: page 2 is rows 3 and 4, and a request for page 7 gives the
  last page, the single fifth row.\<close>

lemma paginate_df_examples:
  "paginate_df [1, 2, 3, 4, 5 :: nat] 2 2 = Inr ([3, 4], 3)"
  "paginate_df [1, 2, 3, 4, 5 :: nat] 7 2 = Inr ([5], 3)"
  "paginate_df ([] :: nat list) 7 2 = Inr ([], 0)"
  by (simp_all add: paginate_df_def py_slice_def)

subsection \<open>Writes keep the keys of the schema\<close>

lemma add_log_eq:
  "add_log trigger db u a d q l =
     (if u \<notin> set (map U_UserID (Users db)) \<or> a \<notin> set (map A_ActivityID (Activities db)) \<or>
         (case l of None \<Rightarrow> False | Some i \<Rightarrow> i \<notin> set (map L_LocationID (Locations db)))
      then Inl IntegrityError
      else Inr (next_LogID db,
             db \<lparr> ActivityLogs := ActivityLogs db @
                     [\<lparr> AL_LogID = next_LogID db, AL_UserID = u, AL_ActivityID = a,
                        AL_LocationID = l, AL_Date = d, AL_Quantity = q,
                        AL_CalculatedEmission = trigger a q \<rparr>],
                  next_LogID := next_LogID db + 1 \<rparr>))"
  by (cases l)
     (simp_all add: add_log_def add_log_statement_def execute_insert_def
        insert_ActivityLogs_def given_def)

lemma add_user_eq:
  "add_user trigger db name email password goal reg =
     (if email \<in> set (map U_Email (Users db)) then Inl IntegrityError
      else Inr (next_UserID db,
             db \<lparr> Users := Users db @
                     [\<lparr> U_UserID = next_UserID db, U_Name = name, U_Email = email,
                        U_Password = password, U_CarbonGoal = goal,
                        U_RegistrationDate = reg \<rparr>],
                  next_UserID := next_UserID db + 1 \<rparr>))"
  by (cases goal)
     (simp_all add: add_user_def add_user_statement_def execute_insert_def
        insert_Users_def given_def)

lemma add_log_keeps_integrity:
  assumes "integrity db" and "auto_increment_ok db"
    and "add_log trigger db u a d q l = Inr (new_id, db')"
  shows "integrity db' \<and> auto_increment_ok db'"
proof -
  from assms(3) have ok: "u \<in> set (map U_UserID (Users db))"
      "a \<in> set (map A_ActivityID (Activities db))"
    and db': "db' = db \<lparr> ActivityLogs := ActivityLogs db @
                     [\<lparr> AL_LogID = next_LogID db, AL_UserID = u, AL_ActivityID = a,
                        AL_LocationID = l, AL_Date = d, AL_Quantity = q,
                        AL_CalculatedEmission = trigger a q \<rparr>],
                  next_LogID := next_LogID db + 1 \<rparr>"
    by (auto simp: add_log_eq split: if_splits)
  from assms(2) have fresh: "next_LogID db \<notin> set (map AL_LogID (ActivityLogs db))"
    by (auto simp: auto_increment_ok_def)
  from assms(1) ok fresh have "integrity db'"
    by (auto simp: integrity_def db')
  moreover from assms(2) have "auto_increment_ok db'"
    by (auto simp: auto_increment_ok_def db')
  ultimately show ?thesis ..
qed

lemma add_user_keeps_integrity:
  assumes "integrity db" and "auto_increment_ok db"
    and "add_user trigger db name email password goal reg = Inr (new_id, db')"
  shows "integrity db' \<and> auto_increment_ok db'"
proof -
  from assms(3) have db': "db' = db \<lparr> Users := Users db @
                     [\<lparr> U_UserID = next_UserID db, U_Name = name, U_Email = email,
                        U_Password = password, U_CarbonGoal = goal,
                        U_RegistrationDate = reg \<rparr>],
                  next_UserID := next_UserID db + 1 \<rparr>"
    by (auto simp: add_user_eq split: if_splits)
  from assms(2) have fresh: "next_UserID db \<notin> set (map U_UserID (Users db))"
    by (auto simp: auto_increment_ok_def)
  from assms(1) fresh have "integrity db'"
    by (auto simp: integrity_def db')
  moreover from assms(2) have "auto_increment_ok db'"
    by (auto simp: auto_increment_ok_def db')
  ultimately show ?thesis ..
qed

lemma delete_log_keeps_integrity:
  assumes "integrity db" and "auto_increment_ok db"
    and "delete_log db log_id = Inr (n, db')"
  shows "integrity db' \<and> auto_increment_ok db'"
proof -
  from assms(3)
  have db': "db' = db \<lparr> ActivityLogs := filter (\<lambda>al. AL_LogID al \<noteq> log_id) (ActivityLogs db) \<rparr>"
    by (auto simp: delete_log_def)
  from assms(1) have "integrity db'"
    by (auto simp: integrity_def db' distinct_map_filter)
  moreover from assms(2) have "auto_increment_ok db'"
    by (auto simp: auto_increment_ok_def db')
  ultimately show ?thesis ..
qed

lemma example_db_auto_increment_ok: "auto_increment_ok example_db"
  by (simp add: auto_increment_ok_def example_db_def)

subsection \<open>Claims about \<^verbatim>\<open>delete_log\<close> and \<^verbatim>\<open>add_log\<close>\<close>

lemma count_key_le_1:
  "distinct (map f xs) \<Longrightarrow> length (filter (\<lambda>x. f x = k) xs) = (if k \<in> set (map f xs) then 1 else 0)"
proof (cases "k \<in> set (map f xs)")
  case True
  assume "distinct (map f xs)"
  from filter_key_single [OF this True] True show ?thesis by auto
next
  case False
  then have "filter (\<lambda>x. f x = k) xs = []" by (auto simp: filter_empty_conv)
  with False show ?thesis by simp
qed

text \<open>
  C5: on a database whose log ids are unique (the keys of the schema hold),
  \<^verbatim>\<open>delete_log\<close> returns, for every log id, the number of rows it removed, and that number
  is 0 or 1. It is the number of rows the table lost, and the rows left are those with
  another id. When no row has the id, the result is the count 0, not an error, and the
  database is as before; when a row has it, the count is 1 and no row with the id is left.
\<close>

theorem delete_log_count:
  assumes "integrity db"
  shows "\<exists>n db'. delete_log db log_id = Inr (n, db') \<and>
           (n = 0 \<or> n = 1) \<and>
           n = int (length (ActivityLogs db)) - int (length (ActivityLogs db')) \<and>
           set (ActivityLogs db') = {al \<in> set (ActivityLogs db). AL_LogID al \<noteq> log_id} \<and>
           (log_id \<notin> set (map AL_LogID (ActivityLogs db)) \<longrightarrow> n = 0 \<and> db' = db) \<and>
           (log_id \<in> set (map AL_LogID (ActivityLogs db)) \<longrightarrow> n = 1)"
proof -
  let ?gone = "filter (\<lambda>al. AL_LogID al = log_id) (ActivityLogs db)"
  let ?left = "filter (\<lambda>al. AL_LogID al \<noteq> log_id) (ActivityLogs db)"
  let ?db' = "db \<lparr> ActivityLogs := ?left \<rparr>"
  from assms have d: "distinct (map AL_LogID (ActivityLogs db))"
    by (simp add: integrity_def)
  have cnt: "length ?gone = (if log_id \<in> set (map AL_LogID (ActivityLogs db)) then 1 else 0)"
    by (rule count_key_le_1 [OF d])
  have "length (ActivityLogs db) = length ?gone + length ?left"
    by (rule sum_length_filter_compl [symmetric])
  then have lost: "int (length ?gone) = int (length (ActivityLogs db)) - int (length (ActivityLogs ?db'))"
    by simp
  have same: "?db' = db" if "log_id \<notin> set (map AL_LogID (ActivityLogs db))"
  proof -
    from that have "\<forall>al \<in> set (ActivityLogs db). AL_LogID al \<noteq> log_id" by auto
    then have "?left = ActivityLogs db" by (simp add: filter_id_conv)
    then show ?thesis by simp
  qed
  have logs': "ActivityLogs ?db' = ?left" by simp
  show ?thesis
  proof (intro exI conjI)
    show "delete_log db log_id = Inr (int (length ?gone), ?db')"
      by (simp add: delete_log_def)
    show "int (length ?gone) = 0 \<or> int (length ?gone) = 1"
      using cnt by simp
    show "int (length ?gone) = int (length (ActivityLogs db)) - int (length (ActivityLogs ?db'))"
      by (rule lost)
    show "set (ActivityLogs ?db') = {al \<in> set (ActivityLogs db). AL_LogID al \<noteq> log_id}"
      unfolding logs' by (rule set_filter)
    show "log_id \<notin> set (map AL_LogID (ActivityLogs db)) \<longrightarrow> int (length ?gone) = 0 \<and> ?db' = db"
      using cnt same by simp
    show "log_id \<in> set (map AL_LogID (ActivityLogs db)) \<longrightarrow> int (length ?gone) = 1"
      using cnt by simp
  qed
qed

theorem delete_log_count_witness:
  "integrity example_db \<and>
   (\<exists>n db'. delete_log example_db 99 = Inr (n, db') \<and>
           (n = 0 \<or> n = 1) \<and>
           n = int (length (ActivityLogs example_db)) - int (length (ActivityLogs db')) \<and>
           set (ActivityLogs db') = {al \<in> set (ActivityLogs example_db). AL_LogID al \<noteq> 99} \<and>
           (99 \<notin> set (map AL_LogID (ActivityLogs example_db)) \<longrightarrow> n = 0 \<and> db' = example_db) \<and>
           (99 \<in> set (map AL_LogID (ActivityLogs example_db)) \<longrightarrow> n = 1))"
  by (rule conjI [OF example_db_integrity delete_log_count [OF example_db_integrity]])

text \<open>On the example database: log 99 does not exist, log 2 does.\<close>

lemma delete_log_examples:
  "delete_log example_db 99 = Inr (0, example_db)"
  "map_sum id (\<lambda>(n, db'). (n, map AL_LogID (ActivityLogs db'))) (delete_log example_db 2)
     = Inr (1, [1, 3])"
  by (simp_all add: delete_log_def example_db_def)

text \<open>
  C7: the insert that \<^verbatim>\<open>add_log\<close> issues is an insert into \<^verbatim>\<open>ActivityLogs\<close> that lists the
  five columns \<^verbatim>\<open>UserID\<close>, \<^verbatim>\<open>ActivityID\<close>, \<^verbatim>\<open>LocationID\<close>, \<^verbatim>\<open>Date\<close>, \<^verbatim>\<open>Quantity\<close> and binds
  its five arguments to them; \<^verbatim>\<open>CalculatedEmission\<close> is not among the columns, so the
  statement gives it no value. What a stored log has as emission is what the trigger of
  the database computes from the activity and the quantity.
\<close>

theorem add_log_never_supplies_emission:
  "add_log trigger db user_id activity_id date qty location_id =
     execute_insert trigger db
       (INSERT_INTO ''ActivityLogs''
          [''UserID'', ''ActivityID'', ''LocationID'', ''Date'', ''Quantity'']
          [IntV user_id, IntV activity_id, optional_int location_id, StrV date, NumV qty]) \<and>
   ''CalculatedEmission'' \<notin>
     set (insert_columns (add_log_statement user_id activity_id date qty location_id)) \<and>
   given (add_log_statement user_id activity_id date qty location_id) ''CalculatedEmission''
     = Null \<and>
   (\<forall>new_id db'.
      add_log trigger db user_id activity_id date qty location_id = Inr (new_id, db') \<longrightarrow>
      ActivityLogs db' = ActivityLogs db @
        [\<lparr> AL_LogID = new_id, AL_UserID = user_id, AL_ActivityID = activity_id,
           AL_LocationID = location_id, AL_Date = date, AL_Quantity = qty,
           AL_CalculatedEmission = trigger activity_id qty \<rparr>])"
proof (intro conjI)
  show "add_log trigger db user_id activity_id date qty location_id =
     execute_insert trigger db
       (INSERT_INTO ''ActivityLogs''
          [''UserID'', ''ActivityID'', ''LocationID'', ''Date'', ''Quantity'']
          [IntV user_id, IntV activity_id, optional_int location_id, StrV date, NumV qty])"
    by (simp add: add_log_def add_log_statement_def)
  show "''CalculatedEmission'' \<notin>
     set (insert_columns (add_log_statement user_id activity_id date qty location_id))"
    by (simp add: add_log_statement_def)
  show "given (add_log_statement user_id activity_id date qty location_id)
          ''CalculatedEmission'' = Null"
    by (simp add: add_log_statement_def given_def)
  show "\<forall>new_id db'.
      add_log trigger db user_id activity_id date qty location_id = Inr (new_id, db') \<longrightarrow>
      ActivityLogs db' = ActivityLogs db @
        [\<lparr> AL_LogID = new_id, AL_UserID = user_id, AL_ActivityID = activity_id,
           AL_LocationID = location_id, AL_Date = date, AL_Quantity = qty,
           AL_CalculatedEmission = trigger activity_id qty \<rparr>]"
    by (auto simp: add_log_eq split: if_splits)
qed

theorem add_log_never_supplies_emission_witness:
  "\<exists>new_id db'.
     add_log (\<lambda>a q. Some (2 * q)) example_db 5 1 ''2024-03-01'' 7 None = Inr (new_id, db') \<and>
     ActivityLogs db' = ActivityLogs example_db @
       [\<lparr> AL_LogID = new_id, AL_UserID = 5, AL_ActivityID = 1, AL_LocationID = None,
          AL_Date = ''2024-03-01'', AL_Quantity = 7, AL_CalculatedEmission = Some 14 \<rparr>]"
proof -
  obtain new_id db'
    where run: "add_log (\<lambda>a q. Some (2 * q)) example_db 5 1 ''2024-03-01'' 7 None
                  = Inr (new_id, db')"
    by (simp add: add_log_eq example_db_def)
  from add_log_never_supplies_emission
         [of "\<lambda>a q. Some (2 * q)" example_db 5 1 "''2024-03-01''" 7 None] run
  have "ActivityLogs db' = ActivityLogs example_db @
       [\<lparr> AL_LogID = new_id, AL_UserID = 5, AL_ActivityID = 1, AL_LocationID = None,
          AL_Date = ''2024-03-01'', AL_Quantity = 7, AL_CalculatedEmission = Some (2 * 7) \<rparr>]"
    by blast
  with run show ?thesis by simp
qed

subsection \<open>Claims about \<^verbatim>\<open>user_met_goal\<close>\<close>

text \<open>
  C4: \<^verbatim>\<open>user_met_goal\<close> is tri-state. When the server answers the call of the function
  without error, the result is unknown (\<^verbatim>\<open>None\<close>) exactly when the answer has no row, and
  with a row it is the boolean value of the scalar in it.
\<close>

theorem user_met_goal_tri_state:
  assumes "CheckIfUserMetGoal user_id year month = Inr row"
  shows "(user_met_goal CheckIfUserMetGoal user_id year month = Inr None \<longleftrightarrow> row = None) \<and>
         (\<forall>v. row = Some v \<longrightarrow>
            user_met_goal CheckIfUserMetGoal user_id year month = Inr (Some (py_bool v)))"
  using assms by (cases row) (simp_all add: user_met_goal_def)

theorem user_met_goal_tri_state_witness:
  "example_CheckIfUserMetGoal 5 2024 1 = Inr (Some (IntV 1)) \<and>
   user_met_goal example_CheckIfUserMetGoal 5 2024 1 = Inr (Some True) \<and>
   user_met_goal example_CheckIfUserMetGoal 5 2024 1 \<noteq> Inr None"
proof -
  have h: "example_CheckIfUserMetGoal 5 2024 1 = Inr (Some (IntV 1))"
    by (simp add: example_CheckIfUserMetGoal_def)
  from user_met_goal_tri_state [of example_CheckIfUserMetGoal 5 2024 1 "Some (IntV 1)", OF h]
  have "user_met_goal example_CheckIfUserMetGoal 5 2024 1 \<noteq> Inr None"
    and "user_met_goal example_CheckIfUserMetGoal 5 2024 1 = Inr (Some (py_bool (IntV (1::int))))"
    by simp_all
  with h show ?thesis by simp
qed

lemma user_met_goal_examples:
  "user_met_goal example_CheckIfUserMetGoal 5 2024 1 = Inr (Some True)"
  "user_met_goal example_CheckIfUserMetGoal 6 2024 1 = Inr (Some False)"
  "user_met_goal example_CheckIfUserMetGoal 7 2024 1 = Inr None"
  by (simp_all add: user_met_goal_def example_CheckIfUserMetGoal_def)

text \<open>
  C10: a row whose scalar is \<^verbatim>\<open>NULL\<close> gives false, not unknown; and the result is unknown
  only when the server answered with no row at all.
\<close>

theorem user_met_goal_null_is_false:
  "(CheckIfUserMetGoal user_id year month = Inr (Some Null) \<longrightarrow>
      user_met_goal CheckIfUserMetGoal user_id year month = Inr (Some False)) \<and>
   (user_met_goal CheckIfUserMetGoal user_id year month = Inr None \<longrightarrow>
      CheckIfUserMetGoal user_id year month = Inr None)"
  by (auto simp: user_met_goal_def split: sum.splits option.splits)

theorem user_met_goal_null_is_false_witness:
  "example_CheckIfUserMetGoal 6 2024 1 = Inr (Some Null) \<and>
   user_met_goal example_CheckIfUserMetGoal 6 2024 1 = Inr (Some False)"
proof -
  have h: "example_CheckIfUserMetGoal 6 2024 1 = Inr (Some Null)"
    by (simp add: example_CheckIfUserMetGoal_def)
  from user_met_goal_null_is_false [of example_CheckIfUserMetGoal 6 2024 1] h
  show ?thesis by blast
qed

subsection \<open>The sort of the logs tab\<close>

declare mergesort.simps [simp del]

lemma set_merge_by: "set (merge_by key xs ys) = set xs \<union> set ys"
  by (induction key xs ys rule: merge_by.induct) auto

lemma mset_merge_by: "mset (merge_by key xs ys) = mset xs + mset ys"
  by (induction key xs ys rule: merge_by.induct) auto

lemma sorted_merge_by:
  "sorted (map key xs) \<Longrightarrow> sorted (map key ys) \<Longrightarrow> sorted (map key (merge_by key xs ys))"
  by (induction key xs ys rule: merge_by.induct) (auto simp: set_merge_by)

text \<open>Merging takes from the left on a tie, so among the rows with one key those of the
  left run come first.\<close>

lemma filter_merge_by:
  "sorted (map key xs) \<Longrightarrow>
     filter (\<lambda>x. key x = k) (merge_by key xs ys)
       = filter (\<lambda>x. key x = k) xs @ filter (\<lambda>x. key x = k) ys"
proof (induction key xs ys rule: merge_by.induct)
  case (1 key right)
  then show ?case by simp
next
  case (2 key left)
  then show ?case by simp
next
  case (3 key l left r right)
  show ?case
  proof (cases "key r < key l")
    case True
    from "3.prems" have above: "\<forall>x \<in> set (l # left). key l \<le> key x" by auto
    have none: "filter (\<lambda>x. key x = k) (l # left) = []" if "key r = k"
      using that True above by (auto simp: filter_empty_conv)
    from True "3.IH"(1) "3.prems"
    have "filter (\<lambda>x. key x = k) (merge_by key (l # left) (r # right))
            = filter (\<lambda>x. key x = k) [r] @ filter (\<lambda>x. key x = k) (l # left)
                @ filter (\<lambda>x. key x = k) right"
      by simp
    also have "\<dots> = filter (\<lambda>x. key x = k) (l # left) @ filter (\<lambda>x. key x = k) (r # right)"
      using none by (cases "key r = k") simp_all
    finally show ?thesis .
  next
    case False
    with "3.IH"(2) "3.prems" show ?thesis by simp
  qed
qed

lemma mset_mergesort: "mset (mergesort key xs) = mset xs"
proof (induction key xs rule: mergesort.induct)
  case (1 key xs)
  show ?case
  proof (cases "length xs < 2")
    case True
    then show ?thesis by (simp add: mergesort.simps [of key xs])
  next
    case False
    with 1 have "mset (mergesort key xs)
        = mset (take (length xs div 2) xs) + mset (drop (length xs div 2) xs)"
      by (simp add: mergesort.simps [of key xs] mset_merge_by)
    also have "\<dots> = mset (take (length xs div 2) xs @ drop (length xs div 2) xs)"
      by (simp only: mset_append)
    also have "\<dots> = mset xs"
      by (simp only: append_take_drop_id)
    finally show ?thesis .
  qed
qed

lemma set_mergesort: "set (mergesort key xs) = set xs"
  by (rule mset_eq_setD [OF mset_mergesort])

lemma sorted_mergesort: "sorted (map key (mergesort key xs))"
proof (induction key xs rule: mergesort.induct)
  case (1 key xs)
  show ?case
  proof (cases "length xs < 2")
    case True
    then have "length (map key xs) \<le> 1" by simp
    then have "sorted (map key xs)" by (rule sorted01)
    with True show ?thesis by (simp add: mergesort.simps [of key xs])
  next
    case False
    with 1 show ?thesis
      by (simp add: mergesort.simps [of key xs] sorted_merge_by)
  qed
qed

lemma filter_mergesort:
  "filter (\<lambda>x. key x = k) (mergesort key xs) = filter (\<lambda>x. key x = k) xs"
proof (induction key xs rule: mergesort.induct)
  case (1 key xs)
  show ?case
  proof (cases "length xs < 2")
    case True
    then show ?thesis by (simp add: mergesort.simps [of key xs])
  next
    case False
    let ?h = "length xs div 2"
    from False have "filter (\<lambda>x. key x = k) (mergesort key xs)
        = filter (\<lambda>x. key x = k) (mergesort key (take ?h xs))
            @ filter (\<lambda>x. key x = k) (mergesort key (drop ?h xs))"
      by (simp add: mergesort.simps [of key xs] filter_merge_by sorted_mergesort)
    also from False 1 have "\<dots> = filter (\<lambda>x. key x = k) (take ?h xs)
            @ filter (\<lambda>x. key x = k) (drop ?h xs)"
      by simp
    also have "\<dots> = filter (\<lambda>x. key x = k) (take ?h xs @ drop ?h xs)"
      by (simp only: filter_append)
    finally show ?thesis by simp
  qed
qed

lemma filter_sorted_part:
  "filter (\<lambda>x. key x = k)
     (if ascending then mergesort key xs else rev (mergesort key (rev xs)))
   = filter (\<lambda>x. key x = k) xs"
  by (simp add: filter_mergesort rev_filter [symmetric])

lemma mset_sort_values: "mset (sort_values sort_col ascending df) = mset df"
  by (simp add: sort_values_def Let_def mset_mergesort)

text \<open>
  C8: the sort of the logs tab is stable. For every sequence of rows, every sort column
  and both directions, the rows that have one and the same value in the sort column (a
  value, or the missing value) stand after the sort in the order they had before it: the
  subsequence of the rows with that value is unchanged.
\<close>

theorem sort_values_stable:
  "filter (\<lambda>r. sort_col r = k) (sort_values sort_col ascending df)
     = filter (\<lambda>r. sort_col r = k) df"
proof -
  let ?key = "\<lambda>r. the (sort_col r)"
  let ?non = "filter (\<lambda>r. sort_col r \<noteq> None) df"
  let ?nans = "filter (\<lambda>r. sort_col r = None) df"
  let ?srt = "if ascending then mergesort ?key ?non else rev (mergesort ?key (rev ?non))"
  have sv: "sort_values sort_col ascending df = ?srt @ ?nans"
    by (simp add: sort_values_def Let_def)
  have in_non: "set ?srt = set ?non"
    by (simp add: set_mergesort)
  show ?thesis
  proof (cases k)
    case None
    have "filter (\<lambda>r. sort_col r = None) ?srt = []"
      unfolding filter_empty_conv in_non by simp
    moreover have "filter (\<lambda>r. sort_col r = None) ?nans = filter (\<lambda>r. sort_col r = None) df"
      by simp
    ultimately have "filter (\<lambda>r. sort_col r = None) (?srt @ ?nans)
        = filter (\<lambda>r. sort_col r = None) df"
      by (simp only: filter_append append_Nil)
    then show ?thesis
      by (simp only: sv None)
  next
    case (Some v)
    have "filter (\<lambda>r. sort_col r = Some v) ?srt = filter (\<lambda>r. ?key r = v) ?srt"
      by (rule filter_cong) (auto simp: in_non)
    also have "\<dots> = filter (\<lambda>r. ?key r = v) ?non"
      by (rule filter_sorted_part)
    also have "\<dots> = filter (\<lambda>r. sort_col r = Some v) df"
      by (induction df) auto
    finally have "filter (\<lambda>r. sort_col r = Some v) ?srt
        = filter (\<lambda>r. sort_col r = Some v) df" .
    moreover have "filter (\<lambda>r. sort_col r = Some v) ?nans = []"
      by (induction df) auto
    ultimately have "filter (\<lambda>r. sort_col r = Some v) (?srt @ ?nans)
        = filter (\<lambda>r. sort_col r = Some v) df"
      by (simp only: filter_append append_Nil2)
    then show ?thesis
      by (simp only: sv Some)
  qed
qed

text \<open>The sort is a sort: the rows with a value come in the order of the direction, and
  those without a value after them.\<close>

lemma sort_values_sorted:
  "sort_values sort_col True df
     = mergesort (\<lambda>r. the (sort_col r)) (filter (\<lambda>r. sort_col r \<noteq> None) df)
         @ filter (\<lambda>r. sort_col r = None) df"
  "sorted (map (\<lambda>r. the (sort_col r))
     (mergesort (\<lambda>r. the (sort_col r)) (filter (\<lambda>r. sort_col r \<noteq> None) df)))"
  by (simp_all add: sort_values_def sorted_mergesort)

text \<open>Rows (id, city) sorted by city, which two rows lack: equal cities keep the order of
  the ids in both directions, and the rows without city stay last.\<close>

lemma sort_values_examples:
  "sort_values snd True [(1::nat, Some ''b''), (2, None), (3, Some ''a''), (4, Some ''b''), (5, None)]
     = [(3, Some ''a''), (1, Some ''b''), (4, Some ''b''), (2, None), (5, None)]"
  "sort_values snd False [(1::nat, Some ''b''), (2, None), (3, Some ''a''), (4, Some ''b''), (5, None)]
     = [(1, Some ''b''), (4, Some ''b''), (3, Some ''a''), (2, None), (5, None)]"
  by (simp_all add: sort_values_def mergesort.simps)

subsection \<open>The logs tab: sort, then paginate\<close>

text \<open>The logs tab calls \<^verbatim>\<open>_paginate_df\<close> on the sorted rows. A requested page within the
  pages is shown as \<^verbatim>\<open>_paginate_df\<close> gives it; for a requested page beyond the last one
  the tab warns and calls \<^verbatim>\<open>_paginate_df\<close> again for page 1, so it shows the first
  page.\<close>

lemma sort_values_Nil_iff: "sort_values sort_col ascending df = [] \<longleftrightarrow> df = []"
  using mset_sort_values [of sort_col ascending df] by (metis mset_zero_iff)

lemma paginate_df_total_pages:
  "0 < P \<Longrightarrow> \<exists>view. paginate_df df page P = Inr (view, \<lceil>real (length df) / real_of_int P\<rceil>)"
  using paginate_df_spec [of P df page] by blast

lemma logs_tab_view_pages:
  assumes "0 < P" and "df_logs \<noteq> []"
  shows "logs_tab_view sort_col ascending page P df_logs =
           (if page > \<lceil>real (length df_logs) / real_of_int P\<rceil>
            then map_sum id (\<lambda>(view, total_pages).
                   ([Warning_PageReset total_pages], view, total_pages))
                   (paginate_df (sort_values sort_col ascending df_logs) 1 P)
            else map_sum id (\<lambda>(view, total_pages). ([], view, total_pages))
                   (paginate_df (sort_values sort_col ascending df_logs) page P))"
proof -
  let ?sdf = "sort_values sort_col ascending df_logs"
  let ?t = "\<lceil>real (length df_logs) / real_of_int P\<rceil>"
  have len: "length ?sdf = length df_logs"
    using mset_sort_values [of sort_col ascending df_logs] by (metis size_mset)
  from paginate_df_total_pages [OF assms(1), of ?sdf page] len
  obtain view where v: "paginate_df ?sdf page P = Inr (view, ?t)" by auto
  from paginate_df_total_pages [OF assms(1), of ?sdf 1] len
  obtain view1 where v1: "paginate_df ?sdf 1 P = Inr (view1, ?t)" by auto
  from assms have "0 < real (length df_logs) / real_of_int P" by simp
  then have "0 < ?t" by simp
  then have ne: "?t \<noteq> 0" by linarith
  show ?thesis
    by (simp add: logs_tab_view_def Let_def v v1 ne)
qed

text \<open>What the logs tab shows, in closed form.\<close>

lemma logs_tab_view_shown:
  assumes "0 < P" and "df_logs \<noteq> []"
  shows "(page \<le> \<lceil>real (length df_logs) / real_of_int P\<rceil> \<longrightarrow>
            logs_tab_view sort_col ascending page P df_logs =
              Inr ([], take (nat P) (drop (nat ((max 1 page - 1) * P))
                                      (sort_values sort_col ascending df_logs)),
                   \<lceil>real (length df_logs) / real_of_int P\<rceil>)) \<and>
         (\<lceil>real (length df_logs) / real_of_int P\<rceil> < page \<longrightarrow>
            logs_tab_view sort_col ascending page P df_logs =
              Inr ([Warning_PageReset \<lceil>real (length df_logs) / real_of_int P\<rceil>],
                   take (nat P) (sort_values sort_col ascending df_logs),
                   \<lceil>real (length df_logs) / real_of_int P\<rceil>))"
proof -
  let ?sdf = "sort_values sort_col ascending df_logs"
  let ?t = "\<lceil>real (length df_logs) / real_of_int P\<rceil>"
  have len: "length ?sdf = length df_logs"
    using mset_sort_values [of sort_col ascending df_logs] by (metis size_mset)
  from assms(2) have ne: "?sdf \<noteq> []"
    by (simp add: sort_values_Nil_iff)
  from assms have "0 < real (length df_logs) / real_of_int P" by simp
  then have "0 < ?t" by simp
  then have t1: "1 \<le> ?t" by linarith
  have pg: "paginate_df ?sdf q P
              = Inr (take (nat P) (drop (nat ((max 1 (min q ?t) - 1) * P)) ?sdf), ?t)" for q
    using paginate_df_spec [OF assms(1), of ?sdf q] ne len
    by (auto simp: Let_def)
  have within: "max 1 (min page ?t) = max 1 page" if "page \<le> ?t"
    using that by simp
  have first: "max 1 (min 1 ?t) = 1"
    using t1 by simp
  show ?thesis
    using logs_tab_view_pages [OF assms, of sort_col ascending page]
    by (simp add: pg within first)
qed

text \<open>
  C3, as the code has it. For a page size \<open>P > 0\<close> and \<open>R\<close> rows, \<^verbatim>\<open>_paginate_df\<close> returns
  (it does not raise) the number of pages \<open>\<lceil>R / P\<rceil>\<close>, which is 0 when there is no row,
  and the rows of one page. With rows, that page is the requested one clamped into 1 to the
  number of pages; its rows are the \<open>P\<close> rows after the first \<open>(p - 1) * P\<close> of the
  sequence; a page before the last has \<open>P\<close> rows, and the last page has
  \<open>R - P * (total_pages - 1)\<close> rows, between 1 and \<open>P\<close>. The logs tab, which paginates the
  sorted logs, shows the page so computed when the requested page is at most the number of
  pages; when the requested page is beyond the last one it warns and shows page 1, the
  first \<open>P\<close> rows of the sorted sequence, not the last page.
\<close>

theorem paginate_df_and_logs_tab_pages:
  fixes df :: "'a list" and page P :: int and sort_col :: "'a \<Rightarrow> 'k::linorder option"
  assumes "0 < P"
  shows "(\<exists>view total_pages.
           paginate_df df page P = Inr (view, total_pages) \<and>
           total_pages = \<lceil>real (length df) / real_of_int P\<rceil> \<and>
           (df = [] \<longrightarrow> total_pages = 0 \<and> view = []) \<and>
           (df \<noteq> [] \<longrightarrow>
              (let p = max 1 (min page total_pages) in
                 1 \<le> p \<and> p \<le> total_pages \<and>
                 view = take (nat P) (drop (nat ((p - 1) * P)) df) \<and>
                 (p < total_pages \<longrightarrow> int (length view) = P) \<and>
                 (p = total_pages \<longrightarrow>
                    int (length view) = int (length df) - P * (total_pages - 1) \<and>
                    1 \<le> int (length view) \<and> int (length view) \<le> P)))) \<and>
         (df \<noteq> [] \<longrightarrow>
            (page \<le> \<lceil>real (length df) / real_of_int P\<rceil> \<longrightarrow>
               logs_tab_view sort_col ascending page P df =
                 Inr ([], take (nat P) (drop (nat ((max 1 page - 1) * P))
                                         (sort_values sort_col ascending df)),
                      \<lceil>real (length df) / real_of_int P\<rceil>)) \<and>
            (\<lceil>real (length df) / real_of_int P\<rceil> < page \<longrightarrow>
               logs_tab_view sort_col ascending page P df =
                 Inr ([Warning_PageReset \<lceil>real (length df) / real_of_int P\<rceil>],
                      take (nat P) (sort_values sort_col ascending df),
                      \<lceil>real (length df) / real_of_int P\<rceil>)))"
  using paginate_df_spec [OF assms, of df page]
    logs_tab_view_shown [OF assms, of df page sort_col ascending]
  by blast

theorem paginate_df_and_logs_tab_pages_witness:
  "(0::int) < 2 \<and>
   paginate_df [1, 2, 3, 4, 5 :: nat] 7 2 = Inr ([5], 3) \<and>
   logs_tab_view Some True 2 2 [1, 2, 3, 4, 5 :: nat] = Inr ([], [3, 4], 3) \<and>
   logs_tab_view Some True 7 2 [1, 2, 3, 4, 5 :: nat] = Inr ([Warning_PageReset 3], [1, 2], 3)"
proof -
  have h: "(0::int) < 2" by simp
  have c: "\<lceil>real (length [1, 2, 3, 4, 5 :: nat]) / real_of_int 2\<rceil> = 3"
    by (simp add: ceiling_eq_iff)
  have s: "sort_values Some True [1, 2, 3, 4, 5 :: nat] = [1, 2, 3, 4, 5]"
    by (simp add: sort_values_def mergesort.simps)
  from paginate_df_and_logs_tab_pages [OF h, of "[1, 2, 3, 4, 5 :: nat]" 7 Some True]
  have "paginate_df [1, 2, 3, 4, 5 :: nat] 7 2 = Inr ([5], 3)"
    and "logs_tab_view Some True 7 2 [1, 2, 3, 4, 5 :: nat] = Inr ([Warning_PageReset 3], [1, 2], 3)"
    unfolding c s by (auto simp: Let_def)
  moreover
  from paginate_df_and_logs_tab_pages [OF h, of "[1, 2, 3, 4, 5 :: nat]" 2 Some True]
  have "logs_tab_view Some True 2 2 [1, 2, 3, 4, 5 :: nat] = Inr ([], [3, 4], 3)"
    unfolding c s by (auto simp: Let_def)
  ultimately show ?thesis using h by simp
qed

text \<open>
  C3 as the specification words it fails in the logs tab. Five rows in pages of two, page 7
  requested: \<^verbatim>\<open>_paginate_df\<close> clamps to page 3 and gives the single fifth row, but the tab
  discards that view and shows rows 1 and 2, the first page.
\<close>

theorem logs_tab_page_beyond_last_counterexample:
  "paginate_df (sort_values Some True [1, 2, 3, 4, 5 :: nat]) 7 2 = Inr ([5], 3) \<and>
   logs_tab_view Some True 7 2 [1, 2, 3, 4, 5 :: nat] = Inr ([Warning_PageReset 3], [1, 2], 3)"
  by (simp add: logs_tab_view_def sort_values_def mergesort.simps paginate_df_def py_slice_def)

subsection \<open>Bulk import\<close>

lemma import_row_appends:
  assumes "import_row py trigger user_id cols db r = Inr (new_id, db')"
  shows "\<exists>new. ActivityLogs db' = ActivityLogs db @ [new]"
proof -
  from assms obtain a d q l where "add_log trigger db user_id a d q l = Inr (new_id, db')"
    by (auto simp: import_row_def and_then_def split: sum.splits if_splits)
  then show ?thesis
    by (auto simp: add_log_eq split: if_splits)
qed

text \<open>The loop from any state: every row adds one to the counter or one warning, the table
  grows by the rows counted, what was stored or shown before stays.\<close>

lemma import_rows_counts:
  assumes "import_rows py trigger user_id cols (db, inserted, warnings) rows
             = (db', inserted', warnings')"
  shows "inserted' - inserted + int (length warnings') - int (length warnings)
           = int (length rows) \<and>
         inserted \<le> inserted' \<and>
         int (length (ActivityLogs db')) = int (length (ActivityLogs db)) + (inserted' - inserted) \<and>
         take (length (ActivityLogs db)) (ActivityLogs db') = ActivityLogs db \<and>
         (\<exists>ws. warnings' = warnings @ ws \<and> (\<forall>w \<in> set ws. \<exists>e. w = Warning_RowFailed e))"
  using assms
proof (induction rows arbitrary: db inserted warnings)
  case Nil
  then show ?case by simp
next
  case (Cons r rows)
  show ?case
  proof (cases "import_row py trigger user_id cols db r")
    case (Inl ie)
    with Cons.prems
    have "import_rows py trigger user_id cols (db, inserted, warnings @ [Warning_RowFailed ie]) rows
            = (db', inserted', warnings')"
      by simp
    from Cons.IH [OF this] show ?thesis by auto
  next
    case (Inr res)
    obtain new_id db1 where res: "res = (new_id, db1)" by (cases res)
    from Inr res import_row_appends obtain new
      where grown: "ActivityLogs db1 = ActivityLogs db @ [new]"
      by blast
    from Cons.prems Inr res
    have "import_rows py trigger user_id cols (db1, inserted + 1, warnings) rows
            = (db', inserted', warnings')"
      by simp
    from Cons.IH [OF this] have
      n: "inserted' - (inserted + 1) + int (length warnings') - int (length warnings)
            = int (length rows)"
      and le: "inserted + 1 \<le> inserted'"
      and len: "int (length (ActivityLogs db')) = int (length (ActivityLogs db1))
                  + (inserted' - (inserted + 1))"
      and pre: "take (length (ActivityLogs db1)) (ActivityLogs db') = ActivityLogs db1"
      and ws: "\<exists>ws. warnings' = warnings @ ws \<and> (\<forall>w \<in> set ws. \<exists>e. w = Warning_RowFailed e)"
      by blast+
    from pre grown
    have "take (length (ActivityLogs db)) (take (length (ActivityLogs db1)) (ActivityLogs db'))
            = ActivityLogs db"
      by simp
    then have pre': "take (length (ActivityLogs db)) (ActivityLogs db') = ActivityLogs db"
      using grown by (simp add: min_def)
    from n le len grown pre' ws show ?thesis by simp
  qed
qed

text \<open>A failed row does not end the loop: a file in two parts is imported as the first
  part, then the second.\<close>

lemma import_rows_append:
  "import_rows py trigger user_id cols st (rows1 @ rows2)
     = import_rows py trigger user_id cols (import_rows py trigger user_id cols st rows1) rows2"
proof (induction rows1 arbitrary: st)
  case Nil
  then show ?case by (cases st) simp
next
  case (Cons r rows1)
  obtain db inserted warnings where st: "st = (db, inserted, warnings)"
    by (cases st)
  show ?case
    unfolding st by (cases "import_row py trigger user_id cols db r") (auto simp: Cons.IH)
qed

lemma import_row_Inr_add_log:
  assumes "import_row py trigger user_id cols db r = Inr (new_id, db')"
  shows "\<exists>activity_id date qty location_id.
           add_log trigger db user_id activity_id date qty location_id = Inr (new_id, db')"
  using assms
  by (auto simp: import_row_def and_then_def split: sum.splits if_splits)

text \<open>One more row at the end of the file: it is tried on the server as the rows before it
  left it, whatever became of them.\<close>

lemma import_rows_snoc:
  "import_rows py trigger user_id cols st (rows @ [r]) =
     (case import_rows py trigger user_id cols st rows of
        (db, inserted, warnings) \<Rightarrow>
          (case import_row py trigger user_id cols db r of
             Inr (new_id, db') \<Rightarrow> (db', inserted + 1, warnings)
           | Inl ie \<Rightarrow> (db, inserted, warnings @ [Warning_RowFailed ie])))"
  by (simp add: import_rows_append split: prod.splits sum.splits)

lemma import_rows_trace:
  assumes "\<And>i. i < length rows \<Longrightarrow>
             outcome i = import_row py trigger user_id cols
               (fst (import_rows py trigger user_id cols (db, 0, []) (take i rows))) (rows ! i)"
  shows "snd (import_rows py trigger user_id cols (db, 0, []) rows) =
     (int (length rows) - int (length (filter (\<lambda>i. isl (outcome i)) [0..<length rows])),
      map (\<lambda>i. Warning_RowFailed (projl (outcome i)))
        (filter (\<lambda>i. isl (outcome i)) [0..<length rows]))"
  using assms
proof (induction rows arbitrary: outcome rule: rev_induct)
  case Nil
  show ?case by simp
next
  case (snoc r rows)
  let ?n = "length rows"
  let ?F = "filter (\<lambda>i. isl (outcome i)) [0..<?n]"
  have old: "outcome i = import_row py trigger user_id cols
               (fst (import_rows py trigger user_id cols (db, 0, []) (take i rows))) (rows ! i)"
    if "i < ?n" for i
    using snoc.prems [of i] that by (simp add: nth_append)
  have last: "outcome ?n = import_row py trigger user_id cols
               (fst (import_rows py trigger user_id cols (db, 0, []) rows)) r"
    using snoc.prems [of ?n] by simp
  from snoc.IH [of outcome, OF old]
  have IH: "snd (import_rows py trigger user_id cols (db, 0, []) rows) =
     (int ?n - int (length ?F), map (\<lambda>i. Warning_RowFailed (projl (outcome i))) ?F)"
    by simp
  obtain db1 inserted warnings
    where run: "import_rows py trigger user_id cols (db, 0, []) rows = (db1, inserted, warnings)"
    by (cases "import_rows py trigger user_id cols (db, 0, []) rows")
  with IH have ins: "inserted = int ?n - int (length ?F)"
    and ws: "warnings = map (\<lambda>i. Warning_RowFailed (projl (outcome i))) ?F"
    by simp_all
  from last run have last': "outcome ?n = import_row py trigger user_id cols db1 r"
    by simp
  have upt: "[0..<length (rows @ [r])] = [0..<?n] @ [?n]"
    by simp
  show ?case
  proof (cases "outcome ?n")
    case (Inl ie)
    then have "filter (\<lambda>i. isl (outcome i)) [0..<length (rows @ [r])] = ?F @ [?n]"
      unfolding upt by simp
    moreover from Inl last' run
    have "snd (import_rows py trigger user_id cols (db, 0, []) (rows @ [r]))
            = (inserted, warnings @ [Warning_RowFailed ie])"
      by (simp add: import_rows_snoc)
    ultimately show ?thesis
      using ins ws Inl by simp
  next
    case (Inr res)
    obtain new_id db2 where res: "res = (new_id, db2)" by (cases res)
    from Inr have "filter (\<lambda>i. isl (outcome i)) [0..<length (rows @ [r])] = ?F"
      unfolding upt by simp
    moreover from Inr res last' run
    have "snd (import_rows py trigger user_id cols (db, 0, []) (rows @ [r]))
            = (inserted + 1, warnings)"
      by (simp add: import_rows_snoc)
    ultimately show ?thesis
      using ins ws by simp
  qed
qed

text \<open>The server after one more row.\<close>

lemma import_rows_server_step:
  assumes "i < length rows"
  shows "fst (import_rows py trigger user_id cols (db, 0, []) (take (Suc i) rows)) =
           (case import_row py trigger user_id cols
                   (fst (import_rows py trigger user_id cols (db, 0, []) (take i rows)))
                   (rows ! i) of
              Inr (new_id, db') \<Rightarrow> db'
            | Inl ie \<Rightarrow> fst (import_rows py trigger user_id cols (db, 0, []) (take i rows)))"
proof -
  from assms have "take (Suc i) rows = take i rows @ [rows ! i]"
    by (rule take_Suc_conv_app_nth)
  then show ?thesis
    by (simp add: import_rows_snoc split: prod.splits sum.splits)
qed


text \<open>
  C6: the bulk import goes through the rows of the file one after the other and always
  completes, with a state of the server, a counter and a list of warnings. Write
  \<open>state_before i\<close> for the server after the first \<open>i\<close> rows and \<open>outcome i\<close> for what the
  body of the loop (the conversions, then \<^verbatim>\<open>add_log\<close> for the picked user) gives for row
  \<open>i\<close> on that server. Every row is tried, on the server as the rows before it left it,
  whether or not one of them failed: after a row that succeeded the server is the one its
  \<^verbatim>\<open>add_log\<close> returned, after a row that failed it is unchanged, and in both cases the next
  row is tried. The rows that fail are the \<open>k\<close> rows whose attempt raised; the warnings are
  their \<open>k\<close> failures, in the order of the rows; the counter is \<open>N - k\<close>; and the table of
  logs has grown by exactly \<open>N - k\<close> rows, behind the rows it had.
\<close>

theorem bulk_import_best_effort:
  "let state_before =
         (\<lambda>i. fst (import_rows py trigger user_id cols (db, 0, []) (take i rows)));
       outcome = (\<lambda>i. import_row py trigger user_id cols (state_before i) (rows ! i));
       failed = filter (\<lambda>i. isl (outcome i)) [0..<length rows]
   in
     state_before 0 = db \<and>
     (\<forall>i < length rows.
        state_before (Suc i)
          = (case outcome i of Inr (new_id, db') \<Rightarrow> db' | Inl ie \<Rightarrow> state_before i) \<and>
        (\<forall>new_id db'. outcome i = Inr (new_id, db') \<longrightarrow>
           (\<exists>activity_id date qty location_id.
              add_log trigger (state_before i) user_id activity_id date qty location_id
                = Inr (new_id, db')))) \<and>
     import_rows py trigger user_id cols (db, 0, []) rows =
       (state_before (length rows),
        int (length rows) - int (length failed),
        map (\<lambda>i. Warning_RowFailed (projl (outcome i))) failed) \<and>
     0 \<le> int (length rows) - int (length failed) \<and>
     int (length (ActivityLogs (state_before (length rows))))
       = int (length (ActivityLogs db)) + (int (length rows) - int (length failed)) \<and>
     take (length (ActivityLogs db)) (ActivityLogs (state_before (length rows)))
       = ActivityLogs db"
proof -
  define state_before
    where "state_before = (\<lambda>i. fst (import_rows py trigger user_id cols (db, 0, []) (take i rows)))"
  define outcome
    where "outcome = (\<lambda>i. import_row py trigger user_id cols (state_before i) (rows ! i))"
  define failed where "failed = filter (\<lambda>i. isl (outcome i)) [0..<length rows]"
  have start: "state_before 0 = db"
    by (simp add: state_before_def)
  have step: "state_before (Suc i)
          = (case outcome i of Inr (new_id, db') \<Rightarrow> db' | Inl ie \<Rightarrow> state_before i)"
    if "i < length rows" for i
    unfolding state_before_def outcome_def by (rule import_rows_server_step [OF that])
  have tried: "\<exists>activity_id date qty location_id.
              add_log trigger (state_before i) user_id activity_id date qty location_id
                = Inr (new_id, db')"
    if "outcome i = Inr (new_id, db')" for i new_id db'
    using that unfolding outcome_def by (rule import_row_Inr_add_log)
  have "snd (import_rows py trigger user_id cols (db, 0, []) rows) =
     (int (length rows) - int (length failed),
      map (\<lambda>i. Warning_RowFailed (projl (outcome i))) failed)"
    unfolding failed_def
    by (rule import_rows_trace) (simp add: outcome_def state_before_def)
  moreover have "fst (import_rows py trigger user_id cols (db, 0, []) rows)
                   = state_before (length rows)"
    by (simp add: state_before_def)
  ultimately have run: "import_rows py trigger user_id cols (db, 0, []) rows =
       (state_before (length rows),
        int (length rows) - int (length failed),
        map (\<lambda>i. Warning_RowFailed (projl (outcome i))) failed)"
    by (metis prod.collapse)
  have "length failed \<le> length [0..<length rows]"
    unfolding failed_def by (rule length_filter_le)
  then have nonneg: "0 \<le> int (length rows) - int (length failed)"
    by simp
  from import_rows_counts [OF run]
  have grown: "int (length (ActivityLogs (state_before (length rows))))
       = int (length (ActivityLogs db)) + (int (length rows) - int (length failed))"
    and kept: "take (length (ActivityLogs db)) (ActivityLogs (state_before (length rows)))
       = ActivityLogs db"
    by simp_all
  show ?thesis
    using start step tried run nonneg grown kept
    unfolding Let_def failed_def outcome_def state_before_def
    by blast
qed

text \<open>The scenario of the specification: three rows, the second with a quantity that is
  no number. Two rows are inserted, one failure is reported, and the import completes.\<close>

lemma bulk_import_scenario:
  "(case import_rows example_builtins example_trigger 5 (df_columns example_frame)
           (example_db, 0, []) (df_rows example_frame) of
      (db', inserted, warnings) \<Rightarrow>
        (map (\<lambda>al. (AL_LogID al, AL_Date al, AL_Quantity al, AL_CalculatedEmission al))
           (ActivityLogs db'), inserted, warnings))
   = ([(1, ''2024-01-05'', 10, Some 2), (2, ''2024-01-10'', 20, Some 4),
       (3, ''2024-02-01'', 30, Some 6), (4, ''2024-03-01'', 10, Some 20),
       (5, ''2024-03-03'', 30, Some 60)],
      2, [Warning_RowFailed ValueError])"
  by (simp add: example_builtins_def example_trigger_def example_frame_def example_db_def
      import_row_def and_then_def getitem_def add_log_eq)

theorem bulk_import_best_effort_witness:
  "\<exists>db'. import_rows example_builtins example_trigger 5 (df_columns example_frame)
            (example_db, 0, []) (df_rows example_frame)
          = (db', 2, [Warning_RowFailed ValueError]) \<and>
         int (length (ActivityLogs db')) = 5"
proof -
  from bulk_import_best_effort
         [of example_builtins example_trigger 5 "df_columns example_frame" example_db
             "df_rows example_frame"]
  obtain db' inserted warnings
    where run: "import_rows example_builtins example_trigger 5 (df_columns example_frame)
                  (example_db, 0, []) (df_rows example_frame) = (db', inserted, warnings)"
      and grown: "int (length (ActivityLogs db')) = int (length (ActivityLogs example_db)) + inserted"
    unfolding Let_def by blast
  from bulk_import_scenario run
  have "inserted = 2" and "warnings = [Warning_RowFailed ValueError]"
    by simp_all
  moreover have "length (ActivityLogs example_db) = 3"
    by (simp add: example_db_def)
  ultimately show ?thesis using run grown by simp
qed

text \<open>On the example file the second row is the one that fails, and the third row is
  tried after it, on the server that holds the first.\<close>

lemma bulk_import_rows_example:
  "map (\<lambda>i. isl (import_row example_builtins example_trigger 5 (df_columns example_frame)
          (fst (import_rows example_builtins example_trigger 5 (df_columns example_frame)
                  (example_db, 0, []) (take i (df_rows example_frame))))
          (df_rows example_frame ! i))) [0, 1, 2]
   = [False, True, False]"
  by (simp add: example_builtins_def example_trigger_def example_frame_def example_db_def
      import_row_def and_then_def getitem_def add_log_eq)

text \<open>The uploader with a well-formed file and a user picked: the warnings of the loop, the
  toast with the counter, and the cache cleared.\<close>

lemma import_handler_runs:
  assumes "set [''ActivityID'', ''Date'', ''Quantity''] \<subseteq> set (df_columns df_imp)"
    and "import_rows py trigger user_id (df_columns df_imp) (server s, 0, []) (df_rows df_imp)
           = (db', inserted, warnings)"
  shows "import_handler py trigger (Some user_id) (Inr df_imp) s
           = s \<lparr> server := db', shown := shown s @ warnings @ [Toast_Imported inserted],
                 cache_data := Map.empty \<rparr>"
  using assms by (simp add: import_handler_def st_cache_data_clear_def)

subsection \<open>Writes and the read cache\<close>

text \<open>A delete that removed no row left the server as it was.\<close>

lemma delete_log_zero_unchanged:
  assumes "delete_log db log_id = Inr (0, db')"
  shows "db' = db"
proof -
  from assms have "filter (\<lambda>al. AL_LogID al = log_id) (ActivityLogs db) = []"
    and db': "db' = db \<lparr> ActivityLogs := filter (\<lambda>al. AL_LogID al \<noteq> log_id) (ActivityLogs db) \<rparr>"
    by (auto simp: delete_log_def)
  then have "\<forall>al \<in> set (ActivityLogs db). AL_LogID al \<noteq> log_id"
    by (simp add: filter_empty_conv)
  then have "filter (\<lambda>al. AL_LogID al \<noteq> log_id) (ActivityLogs db) = ActivityLogs db"
    by (simp add: filter_id_conv)
  with db' show ?thesis by simp
qed

text \<open>Each handler, by the cases of its definition: it leaves the server as it was, or it
  ends with the cache cleared.\<close>

lemma delete_handler_cache:
  "server (delete_handler del_id s) = server s \<or>
   cache_data (delete_handler del_id s) = Map.empty"
proof (cases "del_id \<le> 0")
  case True
  then show ?thesis by (simp add: delete_handler_def)
next
  case False
  obtain deleted db' where run: "delete_log (server s) del_id = Inr (deleted, db')"
    by (simp add: delete_log_def)
  show ?thesis
  proof (cases "deleted = 0")
    case True
    with run have "db' = server s" by (simp add: delete_log_zero_unchanged)
    with False run True show ?thesis by (simp add: delete_handler_def)
  next
    case nz: False
    with False run show ?thesis
      by (simp add: delete_handler_def st_cache_data_clear_def)
  qed
qed

lemma add_log_handler_cache:
  "server (add_log_handler trigger users picked_user_id act_id_map act_choice log_date qty
             loc_id_map loc_choice s) = server s \<or>
   cache_data (add_log_handler trigger users picked_user_id act_id_map act_choice log_date qty
             loc_id_map loc_choice s) = Map.empty"
  by (simp add: add_log_handler_def st_cache_data_clear_def
      split: option.splits sum.splits prod.splits)

lemma add_user_handler_cache:
  "server (add_user_handler trigger u_name u_email u_pass u_goal u_reg s) = server s \<or>
   cache_data (add_user_handler trigger u_name u_email u_pass u_goal u_reg s) = Map.empty"
  by (simp add: add_user_handler_def st_cache_data_clear_def split: sum.splits prod.splits)

lemma import_handler_cache:
  "server (import_handler py trigger picked_user_id file s) = server s \<or>
   cache_data (import_handler py trigger picked_user_id file s) = Map.empty"
  by (simp add: import_handler_def st_cache_data_clear_def
      split: option.splits sum.splits prod.splits)

text \<open>The writes of the data access layer that succeed do change the server.\<close>

lemma add_log_changes_server:
  "add_log trigger db u a d q l = Inr (new_id, db') \<Longrightarrow> ActivityLogs db' \<noteq> ActivityLogs db"
  by (auto simp: add_log_eq split: if_splits)

lemma add_user_changes_server:
  "add_user trigger db name email password goal reg = Inr (new_id, db') \<Longrightarrow> Users db' \<noteq> Users db"
  by (auto simp: add_user_eq split: if_splits)

lemma delete_log_changes_server:
  assumes "delete_log db log_id = Inr (n, db')" and "n \<noteq> 0"
  shows "ActivityLogs db' \<noteq> ActivityLogs db"
proof
  assume same: "ActivityLogs db' = ActivityLogs db"
  from assms(1) have "n = int (length (filter (\<lambda>al. AL_LogID al = log_id) (ActivityLogs db)))"
    and "ActivityLogs db' = filter (\<lambda>al. AL_LogID al \<noteq> log_id) (ActivityLogs db)"
    by (auto simp: delete_log_def)
  with same sum_length_filter_compl [of "\<lambda>al. AL_LogID al = log_id" "ActivityLogs db"]
  have "n = 0" by simp
  with assms(2) show False ..
qed

text \<open>A read through the cache: a fresh entry is returned without a call of the data
  access layer; without entry the wrapped function is called.\<close>

lemma st_cache_data_hit:
  "cache args = Some (v, fetched) \<Longrightarrow> now < fetched + ttl
     \<Longrightarrow> st_cache_data ttl f cache now args = (v, cache, False)"
  by (simp add: st_cache_data_def)

lemma st_cache_data_miss:
  "cache args = None
     \<Longrightarrow> st_cache_data ttl f cache now args = (f args, cache(args \<mapsto> (f args, now)), True)"
  by (simp add: st_cache_data_def)

text \<open>
  C2, as the code has it. A write made through the page that takes effect is followed by
  the invalidation of the whole read cache: the handler of "add log" and of "add user"
  when the insert has returned, the handler of "delete" when the delete removed a row (its
  count is not 0), the bulk import once its loop has run. In each of these cases the
  handler ends with the server as the data access layer left it and with the cache empty;
  and whenever any of the four handlers has changed the server, the cache is empty. A
  delete that removed no row is not followed by an invalidation: the handler reports it and
  leaves the server and the cache as they were. On the empty cache a read with any
  arguments, through any of the cached readers and at any time, calls the data access
  layer again and returns what it answers; so does the reader of the logs in particular.
\<close>

theorem writes_invalidate_cache:
  "(\<forall>n db'. 0 < del_id \<and> delete_log (server s) del_id = Inr (n, db') \<and> n \<noteq> 0 \<longrightarrow>
      delete_handler del_id s
        = s \<lparr> server := db', shown := shown s @ [Toast_Deleted del_id],
              cache_data := Map.empty \<rparr>) \<and>
   (\<forall>db'. 0 < del_id \<and> delete_log (server s) del_id = Inr (0, db') \<longrightarrow>
      delete_handler del_id s = s \<lparr> shown := shown s @ [Info_NoRowDeleted] \<rparr>) \<and>
   (\<forall>ins_user_id activity_id location_id new_id db'.
      users \<noteq> [] \<and> picked_user_id = Some ins_user_id \<and>
      act_id_map act_choice = Some activity_id \<and> loc_id_map loc_choice = Some location_id \<and>
      add_log trigger (server s) ins_user_id activity_id log_date qty location_id
        = Inr (new_id, db') \<longrightarrow>
      add_log_handler trigger users picked_user_id act_id_map act_choice log_date qty
          loc_id_map loc_choice s
        = s \<lparr> server := db', shown := shown s @ [Toast_Inserted new_id],
              cache_data := Map.empty \<rparr>) \<and>
   (\<forall>user_id df_imp.
      picked_user = Some user_id \<and> file = Inr df_imp \<and>
      set [''ActivityID'', ''Date'', ''Quantity''] \<subseteq> set (df_columns df_imp) \<longrightarrow>
      server (import_handler py trigger picked_user file s)
        = fst (import_rows py trigger user_id (df_columns df_imp) (server s, 0, [])
                 (df_rows df_imp)) \<and>
      cache_data (import_handler py trigger picked_user file s) = Map.empty) \<and>
   (\<forall>uid db'.
      u_name \<noteq> [] \<and> u_email \<noteq> [] \<and> u_pass \<noteq> [] \<and>
      add_user trigger (server s) u_name u_email u_pass (Some u_goal) u_reg = Inr (uid, db') \<longrightarrow>
      add_user_handler trigger u_name u_email u_pass u_goal u_reg s
        = s \<lparr> server := db', shown := shown s @ [Toast_UserCreated uid],
              cache_data := Map.empty \<rparr>) \<and>
   (server (delete_handler del_id s) \<noteq> server s \<longrightarrow>
      cache_data (delete_handler del_id s) = Map.empty) \<and>
   (server (add_log_handler trigger users picked_user_id act_id_map act_choice log_date qty
              loc_id_map loc_choice s) \<noteq> server s \<longrightarrow>
      cache_data (add_log_handler trigger users picked_user_id act_id_map act_choice log_date
              qty loc_id_map loc_choice s) = Map.empty) \<and>
   (server (import_handler py trigger picked_user file s) \<noteq> server s \<longrightarrow>
      cache_data (import_handler py trigger picked_user file s) = Map.empty) \<and>
   (server (add_user_handler trigger u_name u_email u_pass u_goal u_reg s) \<noteq> server s \<longrightarrow>
      cache_data (add_user_handler trigger u_name u_email u_pass u_goal u_reg s) = Map.empty) \<and>
   (\<forall>ttl f now args.
      st_cache_data ttl f Map.empty now args = (f args, [args \<mapsto> (f args, now)], True)) \<and>
   (\<forall>db now user_id dfrom dto.
      load_logs db Map.empty now (user_id, dfrom, dto)
        = (list_logs db user_id dfrom dto,
           [(user_id, dfrom, dto) \<mapsto> (list_logs db user_id dfrom dto, now)], True))"
proof (intro conjI)
  show "\<forall>n db'. 0 < del_id \<and> delete_log (server s) del_id = Inr (n, db') \<and> n \<noteq> 0 \<longrightarrow>
      delete_handler del_id s
        = s \<lparr> server := db', shown := shown s @ [Toast_Deleted del_id],
              cache_data := Map.empty \<rparr>"
    by (simp add: delete_handler_def st_cache_data_clear_def)
  show "\<forall>db'. 0 < del_id \<and> delete_log (server s) del_id = Inr (0, db') \<longrightarrow>
      delete_handler del_id s = s \<lparr> shown := shown s @ [Info_NoRowDeleted] \<rparr>"
  proof (intro allI impI)
    fix db'
    assume a: "0 < del_id \<and> delete_log (server s) del_id = Inr (0, db')"
    then have "db' = server s" by (blast intro: delete_log_zero_unchanged)
    with a show "delete_handler del_id s = s \<lparr> shown := shown s @ [Info_NoRowDeleted] \<rparr>"
      by (simp add: delete_handler_def)
  qed
  show "\<forall>ins_user_id activity_id location_id new_id db'.
      users \<noteq> [] \<and> picked_user_id = Some ins_user_id \<and>
      act_id_map act_choice = Some activity_id \<and> loc_id_map loc_choice = Some location_id \<and>
      add_log trigger (server s) ins_user_id activity_id log_date qty location_id
        = Inr (new_id, db') \<longrightarrow>
      add_log_handler trigger users picked_user_id act_id_map act_choice log_date qty
          loc_id_map loc_choice s
        = s \<lparr> server := db', shown := shown s @ [Toast_Inserted new_id],
              cache_data := Map.empty \<rparr>"
    by (simp add: add_log_handler_def st_cache_data_clear_def)
  show "\<forall>user_id df_imp.
      picked_user = Some user_id \<and> file = Inr df_imp \<and>
      set [''ActivityID'', ''Date'', ''Quantity''] \<subseteq> set (df_columns df_imp) \<longrightarrow>
      server (import_handler py trigger picked_user file s)
        = fst (import_rows py trigger user_id (df_columns df_imp) (server s, 0, [])
                 (df_rows df_imp)) \<and>
      cache_data (import_handler py trigger picked_user file s) = Map.empty"
    by (simp add: import_handler_def st_cache_data_clear_def split: prod.splits)
  show "\<forall>uid db'.
      u_name \<noteq> [] \<and> u_email \<noteq> [] \<and> u_pass \<noteq> [] \<and>
      add_user trigger (server s) u_name u_email u_pass (Some u_goal) u_reg = Inr (uid, db') \<longrightarrow>
      add_user_handler trigger u_name u_email u_pass u_goal u_reg s
        = s \<lparr> server := db', shown := shown s @ [Toast_UserCreated uid],
              cache_data := Map.empty \<rparr>"
    by (simp add: add_user_handler_def st_cache_data_clear_def)
  show "server (delete_handler del_id s) \<noteq> server s \<longrightarrow>
      cache_data (delete_handler del_id s) = Map.empty"
    using delete_handler_cache [of del_id s] by blast
  show "server (add_log_handler trigger users picked_user_id act_id_map act_choice log_date qty
              loc_id_map loc_choice s) \<noteq> server s \<longrightarrow>
      cache_data (add_log_handler trigger users picked_user_id act_id_map act_choice log_date
              qty loc_id_map loc_choice s) = Map.empty"
    using add_log_handler_cache [of trigger users picked_user_id act_id_map act_choice
        log_date qty loc_id_map loc_choice s]
    by blast
  show "server (import_handler py trigger picked_user file s) \<noteq> server s \<longrightarrow>
      cache_data (import_handler py trigger picked_user file s) = Map.empty"
    using import_handler_cache [of py trigger picked_user "file" s] by blast
  show "server (add_user_handler trigger u_name u_email u_pass u_goal u_reg s) \<noteq> server s \<longrightarrow>
      cache_data (add_user_handler trigger u_name u_email u_pass u_goal u_reg s) = Map.empty"
    using add_user_handler_cache [of trigger u_name u_email u_pass u_goal u_reg s] by blast
  show "\<forall>ttl f now args.
      st_cache_data ttl f Map.empty now args = (f args, [args \<mapsto> (f args, now)], True)"
    by (simp add: st_cache_data_miss)
  show "\<forall>db now user_id dfrom dto.
      load_logs db Map.empty now (user_id, dfrom, dto)
        = (list_logs db user_id dfrom dto,
           [(user_id, dfrom, dto) \<mapsto> (list_logs db user_id dfrom dto, now)], True)"
    by (simp add: st_cache_data_miss load_logs_def)
qed

text \<open>On the example session, whose cache holds the unfiltered logs: deleting log 2 changes
  the server and leaves the cache empty, and the next read of the logs asks the server,
  which answers without log 2.\<close>

lemma example_session_cached: "cache_data example_session \<noteq> Map.empty"
proof
  assume "cache_data example_session = Map.empty"
  then have "cache_data example_session (None, None, None) = None" by simp
  then show False by (simp add: example_session_def)
qed

lemma delete_handler_example:
  "map AL_LogID (ActivityLogs (server (delete_handler 2 example_session))) = [1, 3]"
  "shown (delete_handler 2 example_session) = [Toast_Deleted 2]"
  by (simp_all add: delete_handler_def delete_log_def example_session_def example_db_def)

theorem writes_invalidate_cache_witness:
  "server (delete_handler 2 example_session) \<noteq> server example_session \<and>
   cache_data example_session \<noteq> Map.empty \<and>
   cache_data (delete_handler 2 example_session) = Map.empty \<and>
   shown (delete_handler 2 example_session) = [Toast_Deleted 2]"
proof -
  obtain n db' where run: "delete_log (server example_session) 2 = Inr (n, db')"
    and n: "n \<noteq> 0"
    by (simp add: delete_log_def example_session_def example_db_def)
  from writes_invalidate_cache [where del_id = 2 and s = example_session, THEN conjunct1]
    run n
  have h: "delete_handler 2 example_session
        = example_session \<lparr> server := db', shown := shown example_session @ [Toast_Deleted 2],
              cache_data := Map.empty \<rparr>"
    by simp
  have "map AL_LogID (ActivityLogs (server example_session)) = [1, 2, 3]"
    by (simp add: example_session_def example_db_def)
  with delete_handler_example(1)
  have changed: "server (delete_handler 2 example_session) \<noteq> server example_session"
    by auto
  have "shown example_session = []"
    by (simp add: example_session_def)
  with h changed example_session_cached show ?thesis by simp
qed

text \<open>
  C2 as the specification words it fails for a delete that finds no row. On the example
  session, whose cache holds the unfiltered logs, the handler of "delete" with log id 99
  runs the delete (it reports that no row was deleted) and leaves the cache entry; the
  next read of the logs, at time 10, is answered from the cache without a call of the data
  access layer.
\<close>

theorem delete_absent_log_keeps_cache_counterexample:
  "shown (delete_handler 99 example_session) = [Info_NoRowDeleted] \<and>
   cache_data (delete_handler 99 example_session) (None, None, None)
     = Some (list_logs example_db None None None, 0) \<and>
   load_logs (server (delete_handler 99 example_session))
       (cache_data (delete_handler 99 example_session)) 10 (None, None, None)
     = (list_logs example_db None None None, cache_data example_session, False)"
  by (simp add: delete_handler_def delete_log_def example_session_def example_db_def
      load_logs_def st_cache_data_def)

end
